theory Spec2Isabelle
  imports Main "HOL-Library.AList"
begin

section \<open>Provider detection (core/llm.ts)\<close>

text \<open>
  Model identifiers are strings of 8-bit characters. \<open>toLowerCase\<close> folds the 26 capital
  letters of ASCII and leaves every other character alone, which is what
  \<^verbatim>\<open>String.prototype.toLowerCase\<close> does on ASCII text; \<open>includes\<close> is the substring test
  of \<^verbatim>\<open>String.prototype.includes\<close>.
\<close>

datatype LLMProvider = OpenAI | Anthropic | Gemini

fun providerString :: "LLMProvider \<Rightarrow> string" where
  "providerString OpenAI = ''openai''"
| "providerString Anthropic = ''anthropic''"
| "providerString Gemini = ''gemini''"

definition lowerChar :: "char \<Rightarrow> char" where
  "lowerChar c =
     (let n = (of_char c :: nat) in if 65 \<le> n \<and> n \<le> 90 then char_of (n + 32) else c)"

definition upperChar :: "char \<Rightarrow> char" where
  "upperChar c =
     (let n = (of_char c :: nat) in if 97 \<le> n \<and> n \<le> 122 then char_of (n - 32) else c)"

definition toLowerCase :: "string \<Rightarrow> string" where
  "toLowerCase s = map lowerChar s"

definition toUpperCase :: "string \<Rightarrow> string" where
  "toUpperCase s = map upperChar s"

fun startsWith :: "string \<Rightarrow> string \<Rightarrow> bool" where
  "startsWith s [] = True"
| "startsWith [] (c # cs) = False"
| "startsWith (x # xs) (c # cs) = (x = c \<and> startsWith xs cs)"

fun includesStr :: "string \<Rightarrow> string \<Rightarrow> bool" where
  "includesStr [] t = (t = [])"
| "includesStr (x # xs) t = (startsWith (x # xs) t \<or> includesStr xs t)"

text \<open>
  The warning that \<^verbatim>\<open>detectProvider\<close> prints on the fallback path goes to the console
  only; the returned provider is all a caller can observe, and all that is modelled.
\<close>

definition detectProvider :: "string \<Rightarrow> LLMProvider" where
  "detectProvider model =
     (let modelLower = toLowerCase model in
      if includesStr modelLower ''gpt'' \<or> includesStr modelLower ''o1'' \<or> includesStr modelLower ''o3''
         \<or> includesStr modelLower ''davinci'' \<or> includesStr modelLower ''curie''
         \<or> includesStr modelLower ''babbage'' \<or> includesStr modelLower ''ada''
      then OpenAI
      else if includesStr modelLower ''claude'' then Anthropic
      else if includesStr modelLower ''gemini'' \<or> includesStr modelLower ''palm'' then Gemini
      else OpenAI)"

text \<open>The three marker families, as the specification's matching policy names them.\<close>

definition openaiMarker :: "string \<Rightarrow> bool" where
  "openaiMarker s = (\<exists>m \<in> set [''gpt'', ''o1'', ''o3'', ''davinci'', ''curie'', ''babbage'', ''ada'']. includesStr s m)"

definition anthropicMarker :: "string \<Rightarrow> bool" where
  "anthropicMarker s = includesStr s ''claude''"

definition geminiMarker :: "string \<Rightarrow> bool" where
  "geminiMarker s = (includesStr s ''gemini'' \<or> includesStr s ''palm'')"

section \<open>Values, objects and the object store\<close>

text \<open>
  A JavaScript value is a primitive or a reference to an object of the store. \<open>Num i\<close>
  is the number whose value is the integer \<open>i\<close>; fractional numbers and the infinities
  are not needed by any operation modelled here. A Number is a double: it holds the integers
  of at most 53 significant bits below \<open>2 ^ 1024\<close> (\<open>isNumber\<close> below). An object is a list of its own enumerable properties in
  insertion order, an array the list of its elements. Reading a property takes the first
  binding of the key, assigning one (\<open>AList.update\<close>) overwrites that binding in place
  or appends a new one, as property assignment does.
\<close>

datatype number = NaN | Num int

type_synonym addr = nat

datatype val = VUndef | VNull | VBool bool | VNum number | VStr string | VRef addr

datatype cell = Obj "(string \<times> val) list" | Arr "val list"

type_synonym heap = "cell list"

fun truthy :: "val \<Rightarrow> bool" where
  "truthy VUndef = False"
| "truthy VNull = False"
| "truthy (VBool b) = b"
| "truthy (VNum n) = (n \<noteq> NaN \<and> n \<noteq> Num 0)"
| "truthy (VStr s) = (s \<noteq> [])"
| "truthy (VRef a) = True"

fun nullish :: "val \<Rightarrow> bool" where
  "nullish VUndef = True"
| "nullish VNull = True"
| "nullish v = False"

definition digit :: "nat \<Rightarrow> char" where
  "digit d = ''0123456789'' ! d"

function showNat :: "nat \<Rightarrow> string" where
  "showNat n = (if n < 10 then [digit n] else showNat (n div 10) @ [digit (n mod 10)])"
  by pat_completeness auto
termination
  by (relation "measure id") auto

declare showNat.simps [simp del]

text \<open>
  The Number nearest to a non-negative integer (ties to the even significand), and the
  integers that are Numbers.
\<close>

function bitLength :: "nat \<Rightarrow> nat" where
  "bitLength n = (if n = 0 then 0 else Suc (bitLength (n div 2)))"
  by pat_completeness auto
termination
  by (relation "measure id") auto

declare bitLength.simps [simp del]

definition roundToNumber :: "nat \<Rightarrow> nat" where
  "roundToNumber n =
     (if bitLength n \<le> 53 then n
      else (let e = bitLength n - 53; q = n div 2 ^ e; r = n mod 2 ^ e
            in (if 2 * r < 2 ^ e \<or> (2 * r = 2 ^ e \<and> even q) then q else q + 1) * 2 ^ e))"

fun isNumber :: "number \<Rightarrow> bool" where
  "isNumber NaN = True"
| "isNumber (Num i) = (roundToNumber (nat \<bar>i\<bar>) = nat \<bar>i\<bar> \<and> \<bar>i\<bar> < 2 ^ 1024)"

text \<open>
  \<^verbatim>\<open>Number::toString\<close>. The digits printed are those of the shortest decimal that
  denotes the number (of two such, the nearer one, then the even one): with \<open>k\<close>
  significant digits, the candidates are the two multiples of the power of ten next to the
  value. An integer up to \<open>2 ^ 53\<close> is its own shortest decimal. A decimal of at most 21
  digits is printed in full, a longer one in exponent form.
\<close>

definition candidates :: "nat \<Rightarrow> nat \<Rightarrow> nat list" where
  "candidates v k =
     (let p = 10 ^ (length (showNat v) - k); lo = (v div p) * p; hi = lo + p
      in filter (\<lambda>c. roundToNumber c = v)
           (if v - lo < hi - v then [lo, hi]
            else if hi - v < v - lo then [hi, lo]
            else if even (v div p) then [lo, hi] else [hi, lo]))"

definition shortest :: "nat \<Rightarrow> nat" where
  "shortest v = (case concat (map (candidates v) [1..<18]) of [] \<Rightarrow> v | c # cs \<Rightarrow> c)"

definition stripZeros :: "string \<Rightarrow> string" where
  "stripZeros ds = rev (dropWhile (\<lambda>c. c = CHR ''0'') (rev ds))"

definition exponentForm :: "nat \<Rightarrow> string" where
  "exponentForm c =
     (case stripZeros (showNat c) of
        [] \<Rightarrow> ''0''
      | d # ds \<Rightarrow> (if ds = [] then [d] else d # CHR ''.'' # ds))
     @ ''e+'' @ showNat (length (showNat c) - 1)"

definition showMagnitude :: "nat \<Rightarrow> string" where
  "showMagnitude m =
     (if m \<le> 2 ^ 53 then showNat m
      else (let c = shortest m in if c < 10 ^ 21 then showNat c else exponentForm c))"

fun numberToString :: "number \<Rightarrow> string" where
  "numberToString NaN = ''NaN''"
| "numberToString (Num i) =
     (if i < 0 then CHR ''-'' # showMagnitude (nat (- i)) else showMagnitude (nat i))"

text \<open>
  String conversion as a template literal performs it, on the primitives. A reference is
  rendered as a plain object without a \<^verbatim>\<open>toString\<close> of its own is; the properties
  converted below (\<^verbatim>\<open>timeout\<close>, \<^verbatim>\<open>provider\<close>) are declared as a number and a string.
\<close>

fun toStringVal :: "val \<Rightarrow> string" where
  "toStringVal VUndef = ''undefined''"
| "toStringVal VNull = ''null''"
| "toStringVal (VBool b) = (if b then ''true'' else ''false'')"
| "toStringVal (VNum n) = numberToString n"
| "toStringVal (VStr s) = s"
| "toStringVal (VRef a) = ''[object Object]''"

text \<open>
  The own enumerable properties of an object, each key once with the binding a read finds
  (\<open>AList.clearjunk\<close> drops a shadowed binding); those of an array are its elements
  under their indices.
\<close>

fun ownProps :: "cell \<Rightarrow> (string \<times> val) list" where
  "ownProps (Obj kvs) = AList.clearjunk kvs"
| "ownProps (Arr vs) = AList.clearjunk (zip (map showNat [0..<length vs]) vs)"

definition getField :: "cell \<Rightarrow> string \<Rightarrow> val" where
  "getField c k = (case map_of (ownProps c) k of None \<Rightarrow> VUndef | Some v \<Rightarrow> v)"

definition hasField :: "cell \<Rightarrow> string \<Rightarrow> bool" where
  "hasField c k = (k \<in> fst ` set (ownProps c))"

text \<open>A reference always points into the store; the model reads an empty object elsewhere.\<close>

definition cellAt :: "heap \<Rightarrow> addr \<Rightarrow> cell" where
  "cellAt h a = (if a < length h then h ! a else Obj [])"

definition elemAt :: "cell \<Rightarrow> nat \<Rightarrow> val" where
  "elemAt c i = (case c of Arr vs \<Rightarrow> (if i < length vs then vs ! i else VUndef) | Obj kvs \<Rightarrow> VUndef)"

definition alloc :: "heap \<Rightarrow> cell \<Rightarrow> addr \<times> heap" where
  "alloc h c = (length h, h @ [c])"

text \<open>The objects an object refers to.\<close>

fun refs :: "cell \<Rightarrow> addr list" where
  "refs (Obj kvs) = concat (map (\<lambda>kv. case snd kv of VRef a \<Rightarrow> [a] | _ \<Rightarrow> []) kvs)"
| "refs (Arr vs) = concat (map (\<lambda>v. case v of VRef a \<Rightarrow> [a] | _ \<Rightarrow> []) vs)"

section \<open>The error taxonomy (core/errors.ts)\<close>

text \<open>
  Anything can be thrown. A thrown value is an error of this library's own classes
  (\<open>instanceof LLMError\<close> holds), another object, of which the adapter reads \<open>name\<close>,
  \<open>status\<close> and \<open>message\<close>, or a primitive: reading a property of \<^verbatim>\<open>undefined\<close> or
  \<^verbatim>\<open>null\<close> throws a \<open>TypeError\<close>, any other primitive has none of the three
  properties. The cause an \<open>LLMError\<close> records is the thrown object or primitive itself.
\<close>

record foreignError =
  errName :: "string option"
  errStatus :: "number option"
  errMessage :: "string option"

datatype primitive = PUndefined | PNull | PBoolean bool | PNumber number | PString string

datatype cause = ErrorObject foreignError | PrimitiveValue primitive

record LLMError =
  name :: string
  message :: string
  statusCode :: number
  provider :: "LLMProvider option"
  code :: "string option"
  originalError :: "cause option"

datatype thrown = Typed LLMError | Foreign foreignError | Primitive primitive

definition newLLMError ::
  "string \<Rightarrow> number option \<Rightarrow> LLMProvider option \<Rightarrow> string option \<Rightarrow> cause option \<Rightarrow> LLMError" where
  "newLLMError msg status prov cd orig =
     \<lparr> name = ''LLMError'', message = msg,
       statusCode = (case status of None \<Rightarrow> Num 500 | Some st \<Rightarrow> st),
       provider = prov, code = cd, originalError = orig \<rparr>"

definition APIKeyError :: "LLMProvider \<Rightarrow> LLMError" where
  "APIKeyError prov =
     (newLLMError (''API key not configured for '' @ providerString prov) (Some (Num 401))
        (Some prov) (Some ''API_KEY_MISSING'') None) \<lparr> name := ''APIKeyError'' \<rparr>"

definition TimeoutError :: "LLMProvider \<Rightarrow> val \<Rightarrow> LLMError" where
  "TimeoutError prov timeout =
     (newLLMError (''Request to '' @ providerString prov @ '' timed out after ''
                     @ toStringVal timeout @ ''ms'')
        (Some (Num 408)) (Some prov) (Some ''TIMEOUT'') None) \<lparr> name := ''TimeoutError'' \<rparr>"

definition UnsupportedProviderError :: "val \<Rightarrow> LLMError" where
  "UnsupportedProviderError prov =
     (newLLMError (''Unsupported LLM provider: '' @ toStringVal prov) (Some (Num 400))
        None (Some ''UNSUPPORTED_PROVIDER'') None) \<lparr> name := ''UnsupportedProviderError'' \<rparr>"

definition typeError :: "string \<Rightarrow> thrown" where
  "typeError msg = Foreign \<lparr> errName = Some ''TypeError'', errStatus = None, errMessage = Some msg \<rparr>"

definition rangeError :: "string \<Rightarrow> thrown" where
  "rangeError msg = Foreign \<lparr> errName = Some ''RangeError'', errStatus = None, errMessage = Some msg \<rparr>"

section \<open>Schema normalisation (providers/openai.ts)\<close>

subsection \<open>The deep copy: \<^verbatim>\<open>JSON.parse(JSON.stringify(schema))\<close>\<close>

text \<open>
  The JSON text between the two calls is represented by the tree it denotes.
  \<open>JSON_stringify\<close> reads a value out of the store; it keeps the stack of the objects it
  is inside of and throws a \<open>TypeError\<close> on a reference back into it, as the source
  language does on a circular structure. A property whose value is \<open>undefined\<close> is left
  out, an \<open>undefined\<close> array element and \<open>NaN\<close> become \<open>null\<close>.
\<close>

datatype json =
  JNull | JBool bool | JNum int | JStr string | JArr "json list" | JObj "(string \<times> json) list"

fun sequenceE :: "('e + 'a) list \<Rightarrow> 'e + 'a list" where
  "sequenceE [] = Inr []"
| "sequenceE (x # xs) =
     (case x of
        Inl e \<Rightarrow> Inl e
      | Inr a \<Rightarrow> (case sequenceE xs of Inl e \<Rightarrow> Inl e | Inr as \<Rightarrow> Inr (a # as)))"

definition orNull :: "json option \<Rightarrow> json" where
  "orNull j = (case j of None \<Rightarrow> JNull | Some x \<Rightarrow> x)"

fun keepDefined :: "(string \<times> json option) list \<Rightarrow> (string \<times> json) list" where
  "keepDefined [] = []"
| "keepDefined ((k, None) # kvs) = keepDefined kvs"
| "keepDefined ((k, Some j) # kvs) = (k, j) # keepDefined kvs"

definition circular :: thrown where
  "circular = typeError ''Converting circular structure to JSON''"

function JSON_stringify :: "heap \<Rightarrow> addr list \<Rightarrow> val \<Rightarrow> thrown + json option" where
  "JSON_stringify h stack VUndef = Inr None"
| "JSON_stringify h stack VNull = Inr (Some JNull)"
| "JSON_stringify h stack (VBool b) = Inr (Some (JBool b))"
| "JSON_stringify h stack (VNum NaN) = Inr (Some JNull)"
| "JSON_stringify h stack (VNum (Num i)) = Inr (Some (JNum i))"
| "JSON_stringify h stack (VStr s) = Inr (Some (JStr s))"
| "JSON_stringify h stack (VRef a) =
     (if a \<in> set stack \<or> length h \<le> a then Inl circular
      else (case cellAt h a of
              Arr vs \<Rightarrow>
                (case sequenceE (map (JSON_stringify h (a # stack)) vs) of
                   Inl e \<Rightarrow> Inl e
                 | Inr js \<Rightarrow> Inr (Some (JArr (map orNull js))))
            | Obj kvs \<Rightarrow>
                (case sequenceE (map (\<lambda>kv. JSON_stringify h (a # stack) (snd kv)) (AList.clearjunk kvs)) of
                   Inl e \<Rightarrow> Inl e
                 | Inr js \<Rightarrow>
                     Inr (Some (JObj (keepDefined (zip (map fst (AList.clearjunk kvs)) js)))))))"
  by pat_completeness auto
termination
proof (relation "measure (\<lambda>(h, stack, v). card ({..<length h} - set stack))")
  show "wf (measure (\<lambda>(h, stack, v). card ({..<length h} - set stack)))" by simp
next
  fix h :: heap and stack :: "addr list" and a :: addr
  assume "\<not> (a \<in> set stack \<or> length h \<le> a)"
  then have m: "a \<in> {..<length h} - set stack" by simp
  have e: "{..<length h} - set (a # stack) = ({..<length h} - set stack) - {a}"
    by (simp only: list.set) blast
  have f: "finite ({..<length h} - set stack)" by simp
  have "card ({..<length h} - set (a # stack)) < card ({..<length h} - set stack)"
    unfolding e using m f by (rule_tac card_Diff1_less)
  then show "\<And>x. ((h, a # stack, x), h, stack, VRef a)
           \<in> measure (\<lambda>(h, stack, v). card ({..<length h} - set stack))"
    and "\<And>x. ((h, a # stack, snd x), h, stack, VRef a)
           \<in> measure (\<lambda>(h, stack, v). card ({..<length h} - set stack))"
    by simp_all
qed

text \<open>
  \<open>JSON_parse\<close> builds the value a tree denotes out of fresh objects, appended to the
  store: \<open>parseAt n j\<close> is the value and the new objects when the store holds \<open>n\<close>
  objects. The objects of an element or property value come before the object that holds
  them.
\<close>

fun parseAt :: "nat \<Rightarrow> json \<Rightarrow> val \<times> cell list"
  and parseListAt :: "nat \<Rightarrow> json list \<Rightarrow> val list \<times> cell list"
  and parsePropsAt :: "nat \<Rightarrow> (string \<times> json) list \<Rightarrow> (string \<times> val) list \<times> cell list" where
  "parseAt n JNull = (VNull, [])"
| "parseAt n (JBool b) = (VBool b, [])"
| "parseAt n (JNum i) = (VNum (Num i), [])"
| "parseAt n (JStr s) = (VStr s, [])"
| "parseAt n (JArr js) =
     (case parseListAt n js of (vs, cs) \<Rightarrow> (VRef (n + length cs), cs @ [Arr vs]))"
| "parseAt n (JObj kjs) =
     (case parsePropsAt n kjs of (kvs, cs) \<Rightarrow> (VRef (n + length cs), cs @ [Obj kvs]))"
| "parseListAt n [] = ([], [])"
| "parseListAt n (j # js) =
     (case parseAt n j of (v, cs) \<Rightarrow>
        (case parseListAt (n + length cs) js of (vs, cs') \<Rightarrow> (v # vs, cs @ cs')))"
| "parsePropsAt n [] = ([], [])"
| "parsePropsAt n (kj # kjs) =
     (case parseAt n (snd kj) of (v, cs) \<Rightarrow>
        (case parsePropsAt (n + length cs) kjs of (kvs, cs') \<Rightarrow> ((fst kj, v) # kvs, cs @ cs')))"

definition JSON_parse :: "heap \<Rightarrow> json \<Rightarrow> val \<times> heap" where
  "JSON_parse h j = (case parseAt (length h) j of (v, cs) \<Rightarrow> (v, h @ cs))"

subsection \<open>\<^verbatim>\<open>processSchema\<close>: the in-place pass\<close>

text \<open>
  \<open>processSchema\<close> mutates the objects of the store in place. It recurses along the
  references of the store, which it does not control, so the model counts the call depth
  down from a bound and answers \<open>None\<close> when the bound is used up.

  The only mutation is the assignment of property \<open>additionalProperties\<close> to an object
  that has none; no existing binding is ever changed. The properties object and the three
  arrays are therefore read once, before their loops. The \<^verbatim>\<open>for ... in\<close> loop runs over
  the keys of an object and over the indices of an array.
\<close>

fun forEachE :: "(heap \<Rightarrow> 'a \<Rightarrow> heap option) \<Rightarrow> 'a list \<Rightarrow> heap \<Rightarrow> heap option" where
  "forEachE f [] h = Some h"
| "forEachE f (x # xs) h = (case f h x of None \<Rightarrow> None | Some h' \<Rightarrow> forEachE f xs h')"

fun processSchema :: "nat \<Rightarrow> heap \<Rightarrow> val \<Rightarrow> heap option" where
  "processSchema 0 h v = None"
| "processSchema (Suc n) h (VRef a) =
     (case cellAt h a of
        Arr vs \<Rightarrow> Some h
      | Obj kvs \<Rightarrow>
          (let h1 = (if getField (Obj kvs) ''type'' = VStr ''object''
                        \<and> \<not> hasField (Obj kvs) ''additionalProperties''
                     then h[a := Obj (AList.update ''additionalProperties'' (VBool False) kvs)]
                     else h)
           in Option.bind
                (case getField (cellAt h1 a) ''properties'' of
                   VRef p \<Rightarrow>
                     (case cellAt h1 p of
                        Obj props \<Rightarrow>
                          forEachE (\<lambda>h' key. processSchema n h' (getField (cellAt h' p) key))
                            (map fst (ownProps (Obj props))) h1
                      | Arr vs \<Rightarrow>
                          forEachE (\<lambda>h' i. processSchema n h' (elemAt (cellAt h' p) i))
                            [0..<length vs] h1)
                 | _ \<Rightarrow> Some h1)
                (\<lambda>h2. Option.bind
                   (if truthy (getField (cellAt h2 a) ''items'')
                    then processSchema n h2 (getField (cellAt h2 a) ''items'')
                    else Some h2)
                   (forEachE
                      (\<lambda>h' key.
                         (case getField (cellAt h' a) key of
                            VRef r \<Rightarrow>
                              (case cellAt h' r of
                                 Arr vs \<Rightarrow>
                                   forEachE (\<lambda>h'' i. processSchema n h'' (elemAt (cellAt h'' r) i))
                                     [0..<length vs] h'
                               | Obj kvs' \<Rightarrow> Some h')
                          | _ \<Rightarrow> Some h'))
                      [''anyOf'', ''allOf'', ''oneOf'']))))"
| "processSchema (Suc n) h v = Some h"

fun height :: "json \<Rightarrow> nat" where
  "height (JArr js) = Suc (fold max (map height js) 0)"
| "height (JObj kjs) = Suc (fold max (map (\<lambda>kj. height (snd kj)) kjs) 0)"
| "height j = 0"

text \<open>
  \<^verbatim>\<open>JSON.parse\<close> of \<^verbatim>\<open>undefined\<close> throws a \<open>SyntaxError\<close>. The copy is a tree, so the
  pass needs no more calls in depth than the tree is high; should the bound not suffice,
  the model answers with the engine's stack overflow.
\<close>

definition syntaxError :: thrown where
  "syntaxError = Foreign \<lparr> errName = Some ''SyntaxError'', errStatus = None,
     errMessage = Some ''\"undefined\" is not valid JSON'' \<rparr>"

definition normalizeSchemaForStrictMode :: "heap \<Rightarrow> val \<Rightarrow> thrown + val \<times> heap" where
  "normalizeSchemaForStrictMode h schema =
     (case JSON_stringify h [] schema of
        Inl e \<Rightarrow> Inl e
      | Inr None \<Rightarrow> Inl syntaxError
      | Inr (Some j) \<Rightarrow>
          (case JSON_parse h j of
             (normalized, h1) \<Rightarrow>
               (case processSchema (Suc (height j)) h1 normalized of
                  None \<Rightarrow> Inl (rangeError ''Maximum call stack size exceeded'')
                | Some h2 \<Rightarrow> Inr (normalized, h2))))"

subsection \<open>What the pass computes on a tree\<close>

text \<open>
  The layout of a parsed tree in the store: \<open>ncells j\<close> objects, the last of which is the
  root, so that \<open>rootAt b j\<close> is the value of the tree parsed at store size \<open>b\<close>. A
  tree is well formed when no object has a key twice, as every tree read out of the store
  is.
\<close>

fun ncells :: "json \<Rightarrow> nat" where
  "ncells (JArr js) = Suc (sum_list (map ncells js))"
| "ncells (JObj kjs) = Suc (sum_list (map (\<lambda>kj. ncells (snd kj)) kjs))"
| "ncells j = 0"

fun rootAt :: "nat \<Rightarrow> json \<Rightarrow> val" where
  "rootAt b JNull = VNull"
| "rootAt b (JBool x) = VBool x"
| "rootAt b (JNum i) = VNum (Num i)"
| "rootAt b (JStr s) = VStr s"
| "rootAt b j = VRef (b + ncells j - 1)"

fun wfj :: "json \<Rightarrow> bool" where
  "wfj (JArr js) = (\<forall>j \<in> set js. wfj j)"
| "wfj (JObj kjs) = (distinct (map fst kjs) \<and> (\<forall>kj \<in> set kjs. wfj (snd kj)))"
| "wfj j = True"

text \<open>
  Where the objects of a property value lie: \<open>baseOf b kjs k\<close> is the store size at
  which the value of the first binding of \<open>k\<close> is parsed, when the object \<open>kjs\<close> is
  parsed at store size \<open>b\<close>.
\<close>

fun baseOf :: "nat \<Rightarrow> (string \<times> json) list \<Rightarrow> string \<Rightarrow> nat" where
  "baseOf b [] k = b"
| "baseOf b (kj # kjs) k = (if fst kj = k then b else baseOf (b + ncells (snd kj)) kjs k)"

text \<open>
  \<open>processTree\<close> is the function on trees that the in-place pass realises on a parsed
  copy (lemma \<open>processSchema_refines\<close>): an object whose \<open>type\<close> is \<open>object\<close> and which
  has no \<open>additionalProperties\<close> gets \<open>additionalProperties: false\<close>; the values of
  \<open>properties\<close>, \<open>items\<close> and the elements of \<open>anyOf\<close>, \<open>allOf\<close>, \<open>oneOf\<close> are
  processed in turn; arrays and primitives stay as they are.
\<close>

definition closeObject :: "(string \<times> json) list \<Rightarrow> (string \<times> json) list" where
  "closeObject kjs =
     (if map_of kjs ''type'' = Some (JStr ''object'') \<and> ''additionalProperties'' \<notin> fst ` set kjs
      then AList.update ''additionalProperties'' (JBool False) kjs else kjs)"

fun rebind :: "string \<Rightarrow> json option \<Rightarrow> (string \<times> json) list \<Rightarrow> (string \<times> json) list" where
  "rebind k None kjs = kjs"
| "rebind k (Some j) kjs = AList.update k j kjs"

function processTree :: "json \<Rightarrow> json" where
  "processTree (JObj kjs) =
     JObj
       (rebind ''oneOf''
          (case map_of kjs ''oneOf'' of
             Some (JArr js) \<Rightarrow> Some (JArr (map processTree js)) | _ \<Rightarrow> None)
       (rebind ''allOf''
          (case map_of kjs ''allOf'' of
             Some (JArr js) \<Rightarrow> Some (JArr (map processTree js)) | _ \<Rightarrow> None)
       (rebind ''anyOf''
          (case map_of kjs ''anyOf'' of
             Some (JArr js) \<Rightarrow> Some (JArr (map processTree js)) | _ \<Rightarrow> None)
       (rebind ''items''
          (case map_of kjs ''items'' of Some j \<Rightarrow> Some (processTree j) | None \<Rightarrow> None)
       (rebind ''properties''
          (case map_of kjs ''properties'' of
             Some (JObj ps) \<Rightarrow> Some (JObj (map (\<lambda>kj. (fst kj, processTree (snd kj))) ps))
           | Some (JArr js) \<Rightarrow> Some (JArr (map processTree js))
           | _ \<Rightarrow> None)
       (closeObject kjs))))))"
| "processTree (JArr js) = JArr js"
| "processTree JNull = JNull"
| "processTree (JBool b) = JBool b"
| "processTree (JNum i) = JNum i"
| "processTree (JStr s) = JStr s"
  by pat_completeness auto
termination
proof -
  have ent: "size j < Suc (size_list (size_prod (\<lambda>x. 0) size) kjs)"
    if "map_of kjs k = Some j" for kjs :: "(string \<times> json) list" and k j
  proof -
    from that have "(k, j) \<in> set kjs" by (rule map_of_SomeD)
    then have "size_prod (\<lambda>x. 0) size (k, j) \<le> size_list (size_prod (\<lambda>x. 0) size) kjs"
      by (rule size_list_estimation') simp
    then show ?thesis by simp
  qed
  have arr: "size j < Suc (size_list (size_prod (\<lambda>x. 0) size) kjs)"
    if "map_of kjs k = Some (JArr js)" "j \<in> set js"
    for kjs :: "(string \<times> json) list" and k js j
  proof -
    from that(2) have "size j \<le> size_list size js" by (rule size_list_estimation') simp
    then have "size j < size (JArr js)" by simp
    with ent [OF that(1)] show ?thesis by simp
  qed
  have obj: "size b < Suc (size_list (size_prod (\<lambda>x. 0) size) kjs)"
    if "map_of kjs k = Some (JObj ps)" "(a, b) \<in> set ps"
    for kjs :: "(string \<times> json) list" and k ps a b
  proof -
    from that(2) have "size_prod (\<lambda>x. 0) size (a, b) \<le> size_list (size_prod (\<lambda>x. 0) size) ps"
      by (rule size_list_estimation') simp
    then have "size b < size (JObj ps)" by simp
    with ent [OF that(1)] show ?thesis by simp
  qed
  show ?thesis
    by (relation "measure size") (auto intro: ent arr obj)
qed

text \<open>
  The sub-schemas a schema reaches: through a value of \<open>properties\<close>, through \<open>items\<close>,
  and through an element of \<open>anyOf\<close>, \<open>allOf\<close> or \<open>oneOf\<close>.
\<close>

datatype step = Property string | Items | AnyOf nat | AllOf nat | OneOf nat

fun elementAt :: "json option \<Rightarrow> nat \<Rightarrow> json option" where
  "elementAt (Some (JArr js)) i = (if i < length js then Some (js ! i) else None)"
| "elementAt other i = None"

fun child :: "json \<Rightarrow> step \<Rightarrow> json option" where
  "child (JObj kjs) (Property k) =
     (case map_of kjs ''properties'' of Some (JObj ps) \<Rightarrow> map_of ps k | _ \<Rightarrow> None)"
| "child (JObj kjs) Items = map_of kjs ''items''"
| "child (JObj kjs) (AnyOf i) = elementAt (map_of kjs ''anyOf'') i"
| "child (JObj kjs) (AllOf i) = elementAt (map_of kjs ''allOf'') i"
| "child (JObj kjs) (OneOf i) = elementAt (map_of kjs ''oneOf'') i"
| "child j s = None"

fun subSchema :: "json \<Rightarrow> step list \<Rightarrow> json option" where
  "subSchema j [] = Some j"
| "subSchema j (s # ss) = (case child j s of None \<Rightarrow> None | Some c \<Rightarrow> subSchema c ss)"

subsection \<open>The response format\<close>

record responseFormat =
  formatName :: val
  formatSchema :: val

definition convertSchemaToResponseFormat :: "heap \<Rightarrow> val \<Rightarrow> thrown + responseFormat \<times> heap" where
  "convertSchemaToResponseFormat h schema =
     (let title = (case schema of VRef a \<Rightarrow> getField (cellAt h a) ''title'' | _ \<Rightarrow> VUndef);
          nm = (if nullish title then VStr ''response'' else title)
      in case normalizeSchemaForStrictMode h schema of
           Inl e \<Rightarrow> Inl e
         | Inr (normalized, h') \<Rightarrow> Inr (\<lparr> formatName = nm, formatSchema = normalized \<rparr>, h'))"

section \<open>The OpenAI adapter (providers/openai.ts)\<close>

text \<open>
  The world of the adapter: the object store, the client singleton of the module, the
  API key of the process environment, and the number of requests handed to the backend.
\<close>

record client =
  clientKey :: string
  traced :: bool

record world =
  store :: heap
  openaiClient :: "client option"
  apiKey :: "string option"
  calls :: nat

datatype prompt = PromptText string | PromptMessages "val list"

datatype inputItem = RoleContent string val | Passed val

datatype temperature = DefaultTemperature | Temperature val

record request =
  reqModel :: val
  reqInput :: "inputItem list"
  reqTemperature :: temperature
  reqTopP :: val
  reqMaxOutputTokens :: val
  reqReasoning :: "val option"
  reqText :: "responseFormat option"

text \<open>
  What the backend answers: a completion is a list of output items with optional usage
  counters. Of an output item the adapter reads the type and, of a message, the content
  parts; of a content part its type and, of output text, the text.
\<close>

datatype contentPart = OutputText string | Refusal string

datatype outputItem = Message "contentPart list" | FunctionCall | Reasoning | OtherToolCall

record backendUsage =
  input_tokens :: int
  output_tokens :: int
  total_tokens :: int

record completion =
  outputItems :: "outputItem list"
  completionUsage :: "backendUsage option"

datatype backendOutcome = Completes completion | Throws thrown

record usage =
  inputTokens :: int
  outputTokens :: int
  totalTokens :: int

record LLMResponse =
  content :: string
  responseProvider :: LLMProvider
  responseModel :: val
  responseUsage :: "usage option"
  structuredOutput :: "json option"

text \<open>
  The two collaborators outside the repository: the backend call
  \<^verbatim>\<open>client.responses.create\<close> and \<^verbatim>\<open>JSON.parse\<close> on a text (\<open>None\<close> when it throws).
\<close>

record runtime =
  backend :: "request \<Rightarrow> val \<Rightarrow> backendOutcome"
  parseText :: "string \<Rightarrow> json option"

definition getOpenAIClient :: "world \<Rightarrow> val \<Rightarrow> thrown + world" where
  "getOpenAIClient w enableTracing =
     (case openaiClient w of
        Some c \<Rightarrow> Inr w
      | None \<Rightarrow>
          (case apiKey w of
             None \<Rightarrow> Inl (Typed (APIKeyError OpenAI))
           | Some k \<Rightarrow>
               if k = [] then Inl (Typed (APIKeyError OpenAI))
               else Inr (w \<lparr> openaiClient := Some \<lparr> clientKey = k, traced = truthy enableTracing \<rparr> \<rparr>)))"

definition formatInput :: "prompt \<Rightarrow> val \<Rightarrow> inputItem list" where
  "formatInput messages systemPrompt =
     (if truthy systemPrompt then [RoleContent ''system'' systemPrompt] else [])
     @ (case messages of
          PromptText t \<Rightarrow> [RoleContent ''user'' (VStr t)]
        | PromptMessages ms \<Rightarrow> map Passed ms)"

definition unsupportedFormat :: LLMError where
  "unsupportedFormat =
     newLLMError ''Unsupported OpenAI response format'' (Some (Num 500)) (Some OpenAI) None None"

text \<open>
  The first part of the \<^verbatim>\<open>try\<close> block: the text of the first content part of the first
  output item. Reading the type of the first part of a message without parts throws the
  engine's \<open>TypeError\<close>.
\<close>

definition extractContent :: "completion \<Rightarrow> thrown + string" where
  "extractContent c =
     (case outputItems c of
        [] \<Rightarrow> Inl (Typed unsupportedFormat)
      | item # rest \<Rightarrow>
          (case item of
             Message parts \<Rightarrow>
               (case parts of
                  [] \<Rightarrow> Inl (typeError ''Cannot read properties of undefined (reading 'type')'')
                | part # others \<Rightarrow>
                    (case part of
                       OutputText t \<Rightarrow> Inr t
                     | Refusal r \<Rightarrow> Inl (Typed unsupportedFormat)))
           | _ \<Rightarrow> Inl (Typed unsupportedFormat)))"

definition tryBlock :: "runtime \<Rightarrow> cell \<Rightarrow> request \<Rightarrow> thrown + LLMResponse" where
  "tryBlock rt cfg params =
     (case backend rt params (getField cfg ''timeout'') of
        Throws t \<Rightarrow> Inl t
      | Completes c \<Rightarrow>
          (case extractContent c of
             Inl t \<Rightarrow> Inl t
           | Inr text \<Rightarrow>
               Inr \<lparr> content = text,
                     responseProvider = OpenAI,
                     responseModel = getField cfg ''model'',
                     responseUsage =
                       (case completionUsage c of
                          Some u \<Rightarrow> Some \<lparr> inputTokens = input_tokens u,
                                             outputTokens = output_tokens u,
                                             totalTokens = total_tokens u \<rparr>
                        | None \<Rightarrow> None),
                     structuredOutput =
                       (if truthy (getField cfg ''schema'') \<and> text \<noteq> []
                        then parseText rt text else None) \<rparr>))"

definition catchBlock :: "cell \<Rightarrow> thrown \<Rightarrow> thrown" where
  "catchBlock cfg error =
     (case error of
        Typed e \<Rightarrow> Typed e
      | Foreign err \<Rightarrow>
          if errName err = Some ''AbortError''
          then Typed (TimeoutError OpenAI
                 (if nullish (getField cfg ''timeout'') then VNum (Num 90000)
                  else getField cfg ''timeout''))
          else Typed (newLLMError
                 (case errMessage err of
                    Some m \<Rightarrow> if m \<noteq> [] then m else ''OpenAI generation failed''
                  | None \<Rightarrow> ''OpenAI generation failed'')
                 (Some (case errStatus err of
                          Some st \<Rightarrow> if truthy (VNum st) then st else Num 500
                        | None \<Rightarrow> Num 500))
                 (Some OpenAI) None (Some (ErrorObject err)))
      | Primitive p \<Rightarrow>
          (case p of
             PUndefined \<Rightarrow> typeError ''Cannot read properties of undefined (reading 'name')''
           | PNull \<Rightarrow> typeError ''Cannot read properties of null (reading 'name')''
           | _ \<Rightarrow> Typed (newLLMError ''OpenAI generation failed'' (Some (Num 500))
                          (Some OpenAI) None (Some (PrimitiveValue p)))))"

text \<open>
  What \<^verbatim>\<open>generateWithOpenAI\<close> does before the \<^verbatim>\<open>try\<close> block: it acquires the client
  and builds the request. An error thrown here leaves the function as it is.
\<close>

definition buildRequest :: "world \<Rightarrow> prompt \<Rightarrow> addr \<Rightarrow> (thrown + request) \<times> world" where
  "buildRequest w prmpt config =
     (let cfg = cellAt (store w) config in
      case getOpenAIClient w
             (if nullish (getField cfg ''enableTracing'') then VBool True
              else getField cfg ''enableTracing'') of
        Inl e \<Rightarrow> (Inl e, w)
      | Inr w1 \<Rightarrow>
          (let params = \<lparr> reqModel = getField cfg ''model'',
                          reqInput = formatInput prmpt (getField cfg ''systemPrompt''),
                          reqTemperature =
                            (if nullish (getField cfg ''temperature'') then DefaultTemperature
                             else Temperature (getField cfg ''temperature'')),
                          reqTopP = getField cfg ''topP'',
                          reqMaxOutputTokens = getField cfg ''maxTokens'',
                          reqReasoning =
                            (if truthy (getField cfg ''reasoning'')
                             then Some (getField cfg ''reasoning'') else None),
                          reqText = None \<rparr>
           in if truthy (getField cfg ''schema'')
              then (case convertSchemaToResponseFormat (store w1) (getField cfg ''schema'') of
                      Inl e \<Rightarrow> (Inl e, w1)
                    | Inr (fmt, h') \<Rightarrow> (Inr (params \<lparr> reqText := Some fmt \<rparr>), w1 \<lparr> store := h' \<rparr>))
              else (Inr params, w1)))"

definition generateWithOpenAI ::
  "runtime \<Rightarrow> world \<Rightarrow> prompt \<Rightarrow> addr \<Rightarrow> (thrown + LLMResponse) \<times> world" where
  "generateWithOpenAI rt w prmpt config =
     (case buildRequest w prmpt config of
        (Inl e, w1) \<Rightarrow> (Inl e, w1)
      | (Inr params, w2) \<Rightarrow>
          (case tryBlock rt (cellAt (store w2) config) params of
             Inl error \<Rightarrow>
               (Inl (catchBlock (cellAt (store w2) config) error), w2 \<lparr> calls := Suc (calls w2) \<rparr>)
           | Inr response \<Rightarrow> (Inr response, w2 \<lparr> calls := Suc (calls w2) \<rparr>)))"

section \<open>The dispatcher (core/llm.ts)\<close>

definition DEFAULT_TIMEOUT :: number where
  "DEFAULT_TIMEOUT = Num 90000"

text \<open>
  \<^verbatim>\<open>detectProvider\<close> applied to a property value: calling \<^verbatim>\<open>toLowerCase\<close> on anything
  but a string throws a \<open>TypeError\<close>.
\<close>

definition detectProviderOf :: "val \<Rightarrow> thrown + val" where
  "detectProviderOf m =
     (case m of
        VStr s \<Rightarrow> Inr (VStr (providerString (detectProvider s)))
      | VUndef \<Rightarrow> Inl (typeError ''Cannot read properties of undefined (reading 'toLowerCase')'')
      | VNull \<Rightarrow> Inl (typeError ''Cannot read properties of null (reading 'toLowerCase')'')
      | _ \<Rightarrow> Inl (typeError ''model.toLowerCase is not a function''))"

text \<open>The properties an object spread copies: those of an object, none of a primitive.\<close>

definition spread :: "heap \<Rightarrow> val \<Rightarrow> (string \<times> val) list" where
  "spread h v = (case v of VRef a \<Rightarrow> ownProps (cellAt h a) | _ \<Rightarrow> [])"

definition assignAll :: "(string \<times> val) list \<Rightarrow> (string \<times> val) list \<Rightarrow> (string \<times> val) list" where
  "assignAll target props = foldl (\<lambda>acc kv. AList.update (fst kv) (snd kv) acc) target props"

record LLM =
  config :: addr

text \<open>
  The constructor. Of a configuration that is a primitive other than \<^verbatim>\<open>undefined\<close> and
  \<^verbatim>\<open>null\<close>, \<^verbatim>\<open>provider\<close> and \<^verbatim>\<open>model\<close> both read \<^verbatim>\<open>undefined\<close>, so that
  \<^verbatim>\<open>detectProvider\<close> throws on the undefined model.
\<close>

definition LLM_new :: "heap \<Rightarrow> val \<Rightarrow> thrown + LLM \<times> heap" where
  "LLM_new h cfg =
     (case cfg of
        VRef a \<Rightarrow>
          (let c = cellAt h a in
           case (if truthy (getField c ''provider'') then Inr (getField c ''provider'')
                 else detectProviderOf (getField c ''model'')) of
             Inl e \<Rightarrow> Inl e
           | Inr prov \<Rightarrow>
               (case alloc h
                       (Obj (assignAll (spread h cfg)
                          [(''provider'', prov),
                           (''timeout'', if truthy (getField c ''timeout'') then getField c ''timeout''
                                         else VNum DEFAULT_TIMEOUT),
                           (''enableTracing'', if nullish (getField c ''enableTracing'') then VBool True
                                               else getField c ''enableTracing'')])) of
                  (r, h') \<Rightarrow> Inr (\<lparr> config = r \<rparr>, h')))
      | VUndef \<Rightarrow> Inl (typeError ''Cannot read properties of undefined (reading 'provider')'')
      | VNull \<Rightarrow> Inl (typeError ''Cannot read properties of null (reading 'provider')'')
      | _ \<Rightarrow> Inl (typeError ''Cannot read properties of undefined (reading 'toLowerCase')''))"

definition LLM_generate :: "runtime \<Rightarrow> world \<Rightarrow> LLM \<Rightarrow> prompt \<Rightarrow> (thrown + LLMResponse) \<times> world" where
  "LLM_generate rt w llm prmpt =
     (if getField (cellAt (store w) (config llm)) ''provider'' = VStr ''openai''
      then generateWithOpenAI rt w prmpt (config llm)
      else (Inl (Typed (UnsupportedProviderError
                   (getField (cellAt (store w) (config llm)) ''provider''))), w))"

definition getConfig :: "heap \<Rightarrow> LLM \<Rightarrow> val \<times> heap" where
  "getConfig h llm =
     (case alloc h (Obj (spread h (VRef (config llm)))) of (g, h') \<Rightarrow> (VRef g, h'))"

definition createLLM :: "heap \<Rightarrow> val \<Rightarrow> thrown + LLM \<times> heap" where
  "createLLM h cfg = LLM_new h cfg"

text \<open>
  The convenience functions build the configuration literal \<^verbatim>\<open>{ model, ...options }\<close>
  (\<^verbatim>\<open>{ model, schema, ...options }\<close>), an object of its own in the store, and hand it to
  \<^verbatim>\<open>createLLM\<close>.
\<close>

definition generateLiteral :: "heap \<Rightarrow> string \<Rightarrow> val \<Rightarrow> cell" where
  "generateLiteral h mdl options = Obj (assignAll [(''model'', VStr mdl)] (spread h options))"

definition generateStructuredLiteral :: "heap \<Rightarrow> string \<Rightarrow> val \<Rightarrow> val \<Rightarrow> cell" where
  "generateStructuredLiteral h mdl schema options =
     Obj (assignAll [(''model'', VStr mdl), (''schema'', schema)] (spread h options))"

definition generate ::
  "runtime \<Rightarrow> world \<Rightarrow> string \<Rightarrow> prompt \<Rightarrow> val \<Rightarrow> (thrown + string) \<times> world" where
  "generate rt w mdl prmpt options =
     (case alloc (store w) (generateLiteral (store w) mdl options) of
        (lit, h1) \<Rightarrow>
          (case createLLM h1 (VRef lit) of
             Inl e \<Rightarrow> (Inl e, w \<lparr> store := h1 \<rparr>)
           | Inr (llm, h2) \<Rightarrow>
               (case LLM_generate rt (w \<lparr> store := h2 \<rparr>) llm prmpt of
                  (Inl e, w') \<Rightarrow> (Inl e, w')
                | (Inr response, w') \<Rightarrow> (Inr (content response), w'))))"

definition orEmptyObject :: "json option \<Rightarrow> json" where
  "orEmptyObject so = (case so of None \<Rightarrow> JObj [] | Some JNull \<Rightarrow> JObj [] | Some j \<Rightarrow> j)"

definition generateStructured ::
  "runtime \<Rightarrow> world \<Rightarrow> string \<Rightarrow> prompt \<Rightarrow> val \<Rightarrow> val \<Rightarrow> (thrown + json) \<times> world" where
  "generateStructured rt w mdl prmpt schema options =
     (case alloc (store w) (generateStructuredLiteral (store w) mdl schema options) of
        (lit, h1) \<Rightarrow>
          (case createLLM h1 (VRef lit) of
             Inl e \<Rightarrow> (Inl e, w \<lparr> store := h1 \<rparr>)
           | Inr (llm, h2) \<Rightarrow>
               (case LLM_generate rt (w \<lparr> store := h2 \<rparr>) llm prmpt of
                  (Inl e, w') \<Rightarrow> (Inl e, w')
                | (Inr response, w') \<Rightarrow> (Inr (orEmptyObject (structuredOutput response)), w'))))"

text \<open>
  The shape of a completion the adapter accepts: the first output item is a message whose
  first content part is output text.
\<close>

definition firstOutputText :: "completion \<Rightarrow> bool" where
  "firstOutputText c =
     (case outputItems c of
        Message (OutputText t # parts) # rest \<Rightarrow> True
      | _ \<Rightarrow> False)"


text \<open>Property assignment \<^verbatim>\<open>obj[k] = v\<close> by a caller holding a reference.\<close>

definition setProp :: "heap \<Rightarrow> val \<Rightarrow> string \<Rightarrow> val \<Rightarrow> heap" where
  "setProp h obj k v =
     (case obj of
        VRef a \<Rightarrow>
          (case cellAt h a of
             Obj kvs \<Rightarrow> h[a := Obj (AList.update k v kvs)]
           | Arr vs \<Rightarrow> h)
      | _ \<Rightarrow> h)"

text \<open>Reading a property through a reference, \<^verbatim>\<open>obj[k]\<close>.\<close>

definition getProp :: "heap \<Rightarrow> val \<Rightarrow> string \<Rightarrow> val" where
  "getProp h obj k = (case obj of VRef a \<Rightarrow> getField (cellAt h a) k | _ \<Rightarrow> VUndef)"

section \<open>Example stores, worlds and runtimes\<close>

text \<open>
  A caller's configuration (at address 1) whose trace metadata is an object of its own (at
  address 0).
\<close>

definition exampleConfigStore :: heap where
  "exampleConfigStore =
     [Obj [(''userId'', VStr ''u1'')],
      Obj [(''model'', VStr ''Claude-3-5-Sonnet''), (''timeout'', VNum (Num 0)),
           (''enableTracing'', VBool False), (''traceMetadata'', VRef 0)]]"

text \<open>The resolved configuration the dispatcher builds from it (at address 2).\<close>

definition resolvedConfigStore :: heap where
  "resolvedConfigStore =
     exampleConfigStore @
       [Obj [(''model'', VStr ''Claude-3-5-Sonnet''), (''timeout'', VNum (Num 90000)),
             (''enableTracing'', VBool False), (''traceMetadata'', VRef 0),
             (''provider'', VStr ''anthropic'')]]"

text \<open>A first \<^verbatim>\<open>getConfig()\<close>, the caller's write through the copy, a second read.\<close>

definition firstRead :: "val \<times> heap" where
  "firstRead = getConfig resolvedConfigStore \<lparr> config = 2 \<rparr>"

text \<open>The caller's \<^verbatim>\<open>copy.traceMetadata.userId = 'evil'\<close> on the returned copy.\<close>

definition storeAfterNestedWrite :: heap where
  "storeAfterNestedWrite =
     setProp (snd firstRead) (getProp (snd firstRead) (fst firstRead) ''traceMetadata'')
       ''userId'' (VStr ''evil'')"

definition secondRead :: "val \<times> heap" where
  "secondRead = getConfig storeAfterNestedWrite \<lparr> config = 2 \<rparr>"

text \<open>
  A runtime whose backend gives one fixed outcome and whose \<^verbatim>\<open>JSON.parse\<close> accepts one
  text; a world with a schema in the store (at address 0) and an API key; the store after
  \<^verbatim>\<open>generateStructured\<close> has built its dispatcher; the request and the world once the
  request is built.
\<close>

definition exampleRuntime :: "backendOutcome \<Rightarrow> string \<Rightarrow> json option \<Rightarrow> runtime" where
  "exampleRuntime out txt parsed =
     \<lparr> backend = (\<lambda>req t. out), parseText = (\<lambda>s. if s = txt \<and> s \<noteq> [] then parsed else None) \<rparr>"

definition exampleWorld :: world where
  "exampleWorld =
     \<lparr> store = [Obj [(''type'', VStr ''object''), (''properties'', VRef 1)],
                Obj [(''sentiment'', VRef 2)],
                Obj [(''type'', VStr ''string'')]],
       openaiClient = None, apiKey = Some ''sk-test'', calls = 0 \<rparr>"

definition dispatcherStore :: heap where
  "dispatcherStore =
     [Obj [(''type'', VStr ''object''), (''properties'', VRef 1)],
      Obj [(''sentiment'', VRef 2)],
      Obj [(''type'', VStr ''string'')],
      Obj [(''model'', VStr ''gpt-4''), (''schema'', VRef 0)],
      Obj [(''model'', VStr ''gpt-4''), (''schema'', VRef 0), (''provider'', VStr ''openai''),
           (''timeout'', VNum (Num 90000)), (''enableTracing'', VBool True)]]"

definition exampleRequest :: request where
  "exampleRequest =
     \<lparr> reqModel = VStr ''gpt-4'', reqInput = [RoleContent ''user'' (VStr ''hi'')],
       reqTemperature = DefaultTemperature, reqTopP = VUndef, reqMaxOutputTokens = VUndef,
       reqReasoning = None,
       reqText = Some \<lparr> formatName = VStr ''response'', formatSchema = VRef 7 \<rparr> \<rparr>"

definition preparedWorld :: world where
  "preparedWorld =
     \<lparr> store = dispatcherStore @
                [Obj [(''type'', VStr ''string'')],
                 Obj [(''sentiment'', VRef 5)],
                 Obj [(''type'', VStr ''object''), (''properties'', VRef 6),
                      (''additionalProperties'', VBool False)]],
       openaiClient = Some \<lparr> clientKey = ''sk-test'', traced = True \<rparr>,
       apiKey = Some ''sk-test'', calls = 0 \<rparr>"

definition textReply :: "string \<Rightarrow> backendOutcome" where
  "textReply t = Completes \<lparr> outputItems = [Message [OutputText t]], completionUsage = None \<rparr>"

definition shapeReply :: "outputItem list \<Rightarrow> backendOutcome" where
  "shapeReply items = Completes \<lparr> outputItems = items, completionUsage = None \<rparr>"

text \<open>A configuration with an explicit provider, in a world that has no API key.\<close>

definition providerStore :: "string \<Rightarrow> heap" where
  "providerStore p =
     [Obj [(''model'', VStr ''some-model''), (''provider'', VStr p),
           (''timeout'', VNum (Num 90000)), (''enableTracing'', VBool True)]]"

definition idleWorld :: "heap \<Rightarrow> world" where
  "idleWorld h = \<lparr> store = h, openaiClient = None, apiKey = None, calls = 0 \<rparr>"

text \<open>A direct call of the adapter with a configuration that sets no timeout.\<close>

definition directWorld :: world where
  "directWorld =
     \<lparr> store = [Obj [(''model'', VStr ''gpt-4'')]],
       openaiClient = None, apiKey = Some ''sk-test'', calls = 0 \<rparr>"

definition directRequest :: request where
  "directRequest =
     \<lparr> reqModel = VStr ''gpt-4'', reqInput = [RoleContent ''user'' (VStr ''hi'')],
       reqTemperature = DefaultTemperature, reqTopP = VUndef, reqMaxOutputTokens = VUndef,
       reqReasoning = None, reqText = None \<rparr>"

definition directPrepared :: world where
  "directPrepared =
     \<lparr> store = [Obj [(''model'', VStr ''gpt-4'')]],
       openaiClient = Some \<lparr> clientKey = ''sk-test'', traced = True \<rparr>,
       apiKey = Some ''sk-test'', calls = 0 \<rparr>"

text \<open>Errors a backend call can throw.\<close>

definition abortError :: foreignError where
  "abortError = \<lparr> errName = Some ''AbortError'', errStatus = None, errMessage = Some ''Request was aborted.'' \<rparr>"

definition rateLimitError :: foreignError where
  "rateLimitError = \<lparr> errName = Some ''Error'', errStatus = Some (Num 429), errMessage = Some ''Rate limit reached'' \<rparr>"

text \<open>
  What the OpenAI client raises when a request exceeds its timeout: an error of its own
  class with the inherited name \<open>Error\<close> and no status.
\<close>

definition timeoutExceeded :: foreignError where
  "timeoutExceeded = \<lparr> errName = Some ''Error'', errStatus = None, errMessage = Some ''Request timed out.'' \<rparr>"

definition statusZeroError :: foreignError where
  "statusZeroError = \<lparr> errName = Some ''Error'', errStatus = Some (Num 0), errMessage = Some ''Connection error.'' \<rparr>"

text \<open>An options bag (at address 3) that names a model and a schema of its own.\<close>

definition optionsWorld :: world where
  "optionsWorld =
     \<lparr> store = store exampleWorld @ [Obj [(''model'', VStr ''claude-3-opus''), (''schema'', VRef 2)]],
       openaiClient = None, apiKey = Some ''sk-test'', calls = 0 \<rparr>"

definition optionsDispatcherStore :: heap where
  "optionsDispatcherStore =
     store optionsWorld @
       [Obj [(''model'', VStr ''claude-3-opus''), (''schema'', VRef 2)],
        Obj [(''model'', VStr ''claude-3-opus''), (''schema'', VRef 2),
             (''provider'', VStr ''anthropic''), (''timeout'', VNum (Num 90000)),
             (''enableTracing'', VBool True)]]"

text \<open>
  A schema with nested object nodes: an object with the properties \<^verbatim>\<open>address\<close> (an
  object with a property of its own) and \<^verbatim>\<open>tags\<close> (an array whose items are objects
  that declare \<^verbatim>\<open>additionalProperties: true\<close>), and with two \<^verbatim>\<open>anyOf\<close> alternatives.
  The root is at address 9.
\<close>

definition nestedSchemaStore :: heap where
  "nestedSchemaStore =
     [Obj [(''type'', VStr ''string'')],
      Obj [(''city'', VRef 0)],
      Obj [(''type'', VStr ''object''), (''properties'', VRef 1)],
      Obj [(''type'', VStr ''object''), (''additionalProperties'', VBool True)],
      Obj [(''type'', VStr ''array''), (''items'', VRef 3)],
      Obj [(''address'', VRef 2), (''tags'', VRef 4)],
      Obj [(''type'', VStr ''object'')],
      Obj [(''type'', VStr ''string'')],
      Arr [VRef 6, VRef 7],
      Obj [(''type'', VStr ''object''), (''properties'', VRef 5), (''anyOf'', VRef 8)]]"

definition nestedSchemaTree :: json where
  "nestedSchemaTree =
     JObj [(''type'', JStr ''object''),
           (''properties'',
              JObj [(''address'',
                       JObj [(''type'', JStr ''object''),
                             (''properties'', JObj [(''city'', JObj [(''type'', JStr ''string'')])])]),
                    (''tags'',
                       JObj [(''type'', JStr ''array''),
                             (''items'', JObj [(''type'', JStr ''object''),
                                               (''additionalProperties'', JBool True)])])]),
           (''anyOf'', JArr [JObj [(''type'', JStr ''object'')], JObj [(''type'', JStr ''string'')]])]"

text \<open>What normalisation returns for it: the objects 10 to 19, the root at address 19.\<close>

definition normalizedSchemaCells :: "cell list" where
  "normalizedSchemaCells =
     [Obj [(''type'', VStr ''string'')],
      Obj [(''city'', VRef 10)],
      Obj [(''type'', VStr ''object''), (''properties'', VRef 11), (''additionalProperties'', VBool False)],
      Obj [(''type'', VStr ''object''), (''additionalProperties'', VBool True)],
      Obj [(''type'', VStr ''array''), (''items'', VRef 13)],
      Obj [(''address'', VRef 12), (''tags'', VRef 14)],
      Obj [(''type'', VStr ''object''), (''additionalProperties'', VBool False)],
      Obj [(''type'', VStr ''string'')],
      Arr [VRef 16, VRef 17],
      Obj [(''type'', VStr ''object''), (''properties'', VRef 15), (''anyOf'', VRef 18),
           (''additionalProperties'', VBool False)]]"

section \<open>Properties of provider detection\<close>

lemma of_char_lowerChar:
  "(of_char (lowerChar c) :: nat) =
     (if 65 \<le> (of_char c :: nat) \<and> (of_char c :: nat) \<le> 90 then of_char c + 32 else of_char c)"
  by (simp add: lowerChar_def Let_def)

lemma of_char_upperChar:
  "(of_char (upperChar c) :: nat) =
     (if 97 \<le> (of_char c :: nat) \<and> (of_char c :: nat) \<le> 122 then of_char c - 32 else of_char c)"
  using nat_of_char_less_256 [of c] by (auto simp: upperChar_def Let_def)

lemma lowerChar_upperChar: "lowerChar (upperChar c) = lowerChar c"
proof (rule of_char_eqI)
  show "(of_char (lowerChar (upperChar c)) :: nat) = of_char (lowerChar c)"
    by (auto simp: of_char_lowerChar of_char_upperChar)
qed

lemma lowerChar_idem: "lowerChar (lowerChar c) = lowerChar c"
proof (rule of_char_eqI)
  show "(of_char (lowerChar (lowerChar c)) :: nat) = of_char (lowerChar c)"
    by (simp add: of_char_lowerChar)
qed

lemma toLowerCase_toUpperCase: "toLowerCase (toUpperCase s) = toLowerCase s"
  by (simp add: toLowerCase_def toUpperCase_def lowerChar_upperChar)

lemma toLowerCase_idem: "toLowerCase (toLowerCase s) = toLowerCase s"
  by (simp add: toLowerCase_def lowerChar_idem)

lemma detectProvider_cong:
  "toLowerCase a = toLowerCase b \<Longrightarrow> detectProvider a = detectProvider b"
  by (simp add: detectProvider_def)

lemma detectProvider_priority:
  "detectProvider m =
     (if openaiMarker (toLowerCase m) then OpenAI
      else if anthropicMarker (toLowerCase m) then Anthropic
      else if geminiMarker (toLowerCase m) then Gemini
      else OpenAI)"
  by (simp add: detectProvider_def openaiMarker_def anthropicMarker_def geminiMarker_def Let_def)

text \<open>
  Claim C2. \<open>detectProvider\<close> is a total function into the three providers. Its answer
  depends on the identifier only up to the case of its letters (two identifiers with the
  same lower-cased form, in particular an identifier and its upper-cased or lower-cased
  form, get the same provider). The markers are tried in priority order: an OpenAI
  family marker wins, then the Anthropic marker, then the Gemini/PaLM markers, and
  \<open>OpenAI\<close> is the fallback when no marker occurs. The four identifiers of the
  specification's table get the providers it lists.
\<close>

theorem detectProvider_total_case_insensitive_priority:
  "detectProvider m \<in> {OpenAI, Anthropic, Gemini}
   \<and> (toLowerCase m = toLowerCase m' \<longrightarrow> detectProvider m = detectProvider m')
   \<and> detectProvider (toUpperCase m) = detectProvider m
   \<and> detectProvider (toLowerCase m) = detectProvider m
   \<and> (openaiMarker (toLowerCase m) \<longrightarrow> detectProvider m = OpenAI)
   \<and> (\<not> openaiMarker (toLowerCase m) \<and> anthropicMarker (toLowerCase m)
        \<longrightarrow> detectProvider m = Anthropic)
   \<and> (\<not> openaiMarker (toLowerCase m) \<and> \<not> anthropicMarker (toLowerCase m)
        \<and> geminiMarker (toLowerCase m) \<longrightarrow> detectProvider m = Gemini)
   \<and> (\<not> openaiMarker (toLowerCase m) \<and> \<not> anthropicMarker (toLowerCase m)
        \<and> \<not> geminiMarker (toLowerCase m) \<longrightarrow> detectProvider m = OpenAI)
   \<and> detectProvider ''gpt-4'' = OpenAI
   \<and> detectProvider ''Claude-3-5-Sonnet'' = Anthropic
   \<and> detectProvider ''gemini-pro'' = Gemini
   \<and> detectProvider ''llama-70b'' = OpenAI"
proof -
  have total: "detectProvider m \<in> {OpenAI, Anthropic, Gemini}"
    by (cases "detectProvider m") simp_all
  have up: "detectProvider (toUpperCase m) = detectProvider m"
    by (rule detectProvider_cong) (rule toLowerCase_toUpperCase)
  have low: "detectProvider (toLowerCase m) = detectProvider m"
    by (rule detectProvider_cong) (rule toLowerCase_idem)
  have e1: "detectProvider ''gpt-4'' = OpenAI" by code_simp
  have e2: "detectProvider ''Claude-3-5-Sonnet'' = Anthropic" by code_simp
  have e3: "detectProvider ''gemini-pro'' = Gemini" by code_simp
  have e4: "detectProvider ''llama-70b'' = OpenAI" by code_simp
  show ?thesis
    using total up low e1 e2 e3 e4 detectProvider_cong [of m m']
    by (simp add: detectProvider_priority)
qed

theorem detectProvider_witness:
  "toLowerCase ''GEMINI-Pro'' = toLowerCase ''gemini-pro''
   \<and> detectProvider ''GEMINI-Pro'' = detectProvider ''gemini-pro''
   \<and> openaiMarker (toLowerCase ''Ada-Claude'') \<and> detectProvider ''Ada-Claude'' = OpenAI
   \<and> \<not> openaiMarker (toLowerCase ''CLAUDE-gemini'') \<and> anthropicMarker (toLowerCase ''CLAUDE-gemini'')
   \<and> detectProvider ''CLAUDE-gemini'' = Anthropic
   \<and> \<not> openaiMarker (toLowerCase ''PaLM-2'') \<and> \<not> anthropicMarker (toLowerCase ''PaLM-2'')
   \<and> geminiMarker (toLowerCase ''PaLM-2'') \<and> detectProvider ''PaLM-2'' = Gemini
   \<and> \<not> openaiMarker (toLowerCase ''llama-70b'') \<and> \<not> anthropicMarker (toLowerCase ''llama-70b'')
   \<and> \<not> geminiMarker (toLowerCase ''llama-70b'') \<and> detectProvider ''llama-70b'' = OpenAI"
proof -
  have a: "toLowerCase ''GEMINI-Pro'' = toLowerCase ''gemini-pro''" by code_simp
  have b: "openaiMarker (toLowerCase ''Ada-Claude'')" by code_simp
  have c: "\<not> openaiMarker (toLowerCase ''CLAUDE-gemini'')" by code_simp
  have d: "anthropicMarker (toLowerCase ''CLAUDE-gemini'')" by code_simp
  have e: "\<not> openaiMarker (toLowerCase ''PaLM-2'')" by code_simp
  have f: "\<not> anthropicMarker (toLowerCase ''PaLM-2'')" by code_simp
  have g: "geminiMarker (toLowerCase ''PaLM-2'')" by code_simp
  have h: "\<not> openaiMarker (toLowerCase ''llama-70b'')" by code_simp
  have i: "\<not> anthropicMarker (toLowerCase ''llama-70b'')" by code_simp
  have j: "\<not> geminiMarker (toLowerCase ''llama-70b'')" by code_simp
  show ?thesis
    using a b c d e f g h i j
      detectProvider_total_case_insensitive_priority [of "''GEMINI-Pro''" "''gemini-pro''"]
      detectProvider_total_case_insensitive_priority [of "''Ada-Claude''" "''x''"]
      detectProvider_total_case_insensitive_priority [of "''CLAUDE-gemini''" "''x''"]
      detectProvider_total_case_insensitive_priority [of "''PaLM-2''" "''x''"]
      detectProvider_total_case_insensitive_priority [of "''llama-70b''" "''x''"]
    by simp
qed

section \<open>The store and the resolution of a configuration\<close>

text \<open>The example stores evaluate as described.\<close>

lemma example_createLLM:
  "createLLM (store exampleWorld @ [generateStructuredLiteral (store exampleWorld) ''gpt-4'' (VRef 0) VUndef])
     (VRef (length (store exampleWorld))) = Inr (\<lparr> config = 4 \<rparr>, dispatcherStore)"
  by code_simp

lemma example_buildRequest:
  "buildRequest (exampleWorld \<lparr> store := dispatcherStore \<rparr>) (PromptText ''hi'') 4
     = (Inr exampleRequest, preparedWorld)"
  by code_simp

lemma example_timeout: "getField (cellAt (store preparedWorld) 4) ''timeout'' = VNum (Num 90000)"
  by code_simp

lemma example_schema: "truthy (getField (cellAt (store preparedWorld) 4) ''schema'')"
  by code_simp

lemma example_provider: "getField (cellAt dispatcherStore 4) ''provider'' = VStr ''openai''"
  by code_simp


lemma example_LLM_new: "LLM_new exampleConfigStore (VRef 1) = Inr (\<lparr> config = 2 \<rparr>, resolvedConfigStore)"
  by code_simp

lemma getField_Obj: "getField (Obj kvs) k = (case map_of kvs k of None \<Rightarrow> VUndef | Some v \<Rightarrow> v)"
  by (simp add: getField_def map_of_clearjunk)

lemma hasField_Obj: "hasField (Obj kvs) k = (k \<in> fst ` set kvs)"
  using clearjunk_keys_set [of kvs] by (simp add: hasField_def)

lemma cellAt_append_old: "a < length h \<Longrightarrow> cellAt (h @ cs) a = cellAt h a"
  by (simp add: cellAt_def nth_append)

lemma cellAt_append_new: "cellAt (h @ [c]) (length h) = c"
  by (simp add: cellAt_def)

lemma map_of_assignAll:
  "map_of (assignAll t ps) = map_of t ++ map_of (rev ps)"
proof (induction ps arbitrary: t)
  case Nil
  show ?case by (simp add: assignAll_def)
next
  case (Cons p ps)
  have "assignAll t (p # ps) = assignAll (AList.update (fst p) (snd p) t) ps"
    by (simp add: assignAll_def)
  then have "map_of (assignAll t (p # ps))
               = map_of (AList.update (fst p) (snd p) t) ++ map_of (rev ps)"
    using Cons.IH by simp
  also have "\<dots> = (map_of t ++ map_of [p]) ++ map_of (rev ps)"
    by (cases p) (simp add: update_conv')
  also have "\<dots> = map_of t ++ map_of (rev (p # ps))"
    by (simp only: rev.simps map_of_append map_add_assoc)
  finally show ?case .
qed

lemma keys_assignAll: "fst ` set (assignAll t ps) = fst ` set t \<union> fst ` set ps"
proof (induction ps arbitrary: t)
  case Nil
  show ?case by (simp add: assignAll_def)
next
  case (Cons p ps)
  have "assignAll t (p # ps) = assignAll (AList.update (fst p) (snd p) t) ps"
    by (simp add: assignAll_def)
  then show ?case using Cons.IH [of "AList.update (fst p) (snd p) t"]
    by (auto simp: dom_update)
qed

lemma distinct_assignAll: "distinct (map fst t) \<Longrightarrow> distinct (map fst (assignAll t ps))"
proof (induction ps arbitrary: t)
  case Nil
  then show ?case by (simp add: assignAll_def)
next
  case (Cons p ps)
  have "assignAll t (p # ps) = assignAll (AList.update (fst p) (snd p) t) ps"
    by (simp add: assignAll_def)
  then show ?case using Cons by (simp add: distinct_update)
qed

lemma distinct_ownProps: "distinct (map fst (ownProps c))"
  by (cases c) simp_all

lemma distinct_spread: "distinct (map fst (spread h v))"
  by (cases v) (simp_all add: spread_def distinct_ownProps)

lemma spread_Obj: "cellAt h a = Obj kvs \<Longrightarrow> distinct (map fst kvs) \<Longrightarrow> spread h (VRef a) = kvs"
  by (simp add: spread_def)

lemma getField_spread: "getField (Obj (spread h (VRef a))) k = getField (cellAt h a) k"
  by (cases "cellAt h a") (simp_all add: getField_def spread_def map_of_clearjunk)

lemma hasField_spread: "hasField (Obj (spread h (VRef a))) k = hasField (cellAt h a) k"
  by (cases "cellAt h a") (simp_all add: hasField_def spread_def)

lemma getField_assignAll:
  "getField (Obj (assignAll t ps)) k =
     (case map_of (rev ps) k of None \<Rightarrow> getField (Obj t) k | Some v \<Rightarrow> v)"
  by (simp add: getField_Obj map_of_assignAll map_add_def split: option.splits)

lemma hasField_assignAll:
  "hasField (Obj (assignAll t ps)) k = (hasField (Obj t) k \<or> k \<in> fst ` set ps)"
  by (simp add: hasField_Obj keys_assignAll)

lemma assignAll_triv:
  "\<forall>kv \<in> set ps. map_of t (fst kv) = Some (snd kv) \<Longrightarrow> assignAll t ps = t"
proof (induction ps)
  case Nil
  show ?case by (simp add: assignAll_def)
next
  case (Cons p ps)
  have "assignAll t (p # ps) = assignAll (AList.update (fst p) (snd p) t) ps"
    by (simp add: assignAll_def)
  moreover have "AList.update (fst p) (snd p) t = t"
    using Cons.prems by (simp add: update_triv)
  ultimately show ?case using Cons by simp
qed

lemma LLM_new_Inr:
  "LLM_new h (VRef a) = Inr (llm, h1) \<longleftrightarrow>
     (\<exists>prov. (if truthy (getField (cellAt h a) ''provider'') then Inr (getField (cellAt h a) ''provider'')
              else detectProviderOf (getField (cellAt h a) ''model'')) = Inr prov
        \<and> llm = \<lparr> config = length h \<rparr>
        \<and> h1 = h @ [Obj (assignAll (spread h (VRef a))
                     [(''provider'', prov),
                      (''timeout'', if truthy (getField (cellAt h a) ''timeout'')
                                    then getField (cellAt h a) ''timeout'' else VNum DEFAULT_TIMEOUT),
                      (''enableTracing'', if nullish (getField (cellAt h a) ''enableTracing'')
                                          then VBool True
                                          else getField (cellAt h a) ''enableTracing'')])])"
  by (auto simp: LLM_new_def Let_def alloc_def split: sum.splits)

lemma providerString_nonempty: "providerString p \<noteq> []"
  by (cases p) simp_all

lemma detectProviderOf_Inr:
  "detectProviderOf v = Inr prov \<longleftrightarrow> (\<exists>m. v = VStr m \<and> prov = VStr (providerString (detectProvider m)))"
  by (cases v) (auto simp: detectProviderOf_def typeError_def)


lemma resolved_fields:
  assumes "LLM_new h (VRef a) = Inr (llm, h1)"
  shows "getField (cellAt h1 (config llm)) ''provider'' =
           (if truthy (getField (cellAt h a) ''provider'') then getField (cellAt h a) ''provider''
            else (case getField (cellAt h a) ''model'' of
                    VStr m \<Rightarrow> VStr (providerString (detectProvider m)) | _ \<Rightarrow> VUndef))"
    and "getField (cellAt h1 (config llm)) ''timeout'' =
           (if truthy (getField (cellAt h a) ''timeout'') then getField (cellAt h a) ''timeout''
            else VNum (Num 90000))"
    and "getField (cellAt h1 (config llm)) ''enableTracing'' =
           (if nullish (getField (cellAt h a) ''enableTracing'') then VBool True
            else getField (cellAt h a) ''enableTracing'')"
    and "k \<notin> {''provider'', ''timeout'', ''enableTracing''} \<Longrightarrow>
           getField (cellAt h1 (config llm)) k = getField (cellAt h a) k
           \<and> hasField (cellAt h1 (config llm)) k = hasField (cellAt h a) k"
    and "take (length h) h1 = h"
    and "truthy (getField (cellAt h1 (config llm)) ''provider'')"
    and "truthy (getField (cellAt h1 (config llm)) ''timeout'')"
    and "\<not> nullish (getField (cellAt h1 (config llm)) ''enableTracing'')"
proof -
  from assms obtain prov where
    p: "(if truthy (getField (cellAt h a) ''provider'') then Inr (getField (cellAt h a) ''provider'')
         else detectProviderOf (getField (cellAt h a) ''model'')) = Inr prov"
    and l: "llm = \<lparr> config = length h \<rparr>"
    and h1: "h1 = h @ [Obj (assignAll (spread h (VRef a))
                     [(''provider'', prov),
                      (''timeout'', if truthy (getField (cellAt h a) ''timeout'')
                                    then getField (cellAt h a) ''timeout'' else VNum DEFAULT_TIMEOUT),
                      (''enableTracing'', if nullish (getField (cellAt h a) ''enableTracing'')
                                          then VBool True
                                          else getField (cellAt h a) ''enableTracing'')])]"
    unfolding LLM_new_Inr by blast
  have c: "cellAt h1 (config llm) = Obj (assignAll (spread h (VRef a))
                     [(''provider'', prov),
                      (''timeout'', if truthy (getField (cellAt h a) ''timeout'')
                                    then getField (cellAt h a) ''timeout'' else VNum DEFAULT_TIMEOUT),
                      (''enableTracing'', if nullish (getField (cellAt h a) ''enableTracing'')
                                          then VBool True
                                          else getField (cellAt h a) ''enableTracing'')])"
    unfolding h1 l by (simp add: cellAt_append_new)
  have pv: "prov = (if truthy (getField (cellAt h a) ''provider'') then getField (cellAt h a) ''provider''
            else (case getField (cellAt h a) ''model'' of
                    VStr m \<Rightarrow> VStr (providerString (detectProvider m)) | _ \<Rightarrow> VUndef))"
    using p by (auto simp: detectProviderOf_Inr split: if_splits)
  have tp: "truthy prov"
    using p by (auto simp: detectProviderOf_Inr providerString_nonempty split: if_splits)
  show "getField (cellAt h1 (config llm)) ''provider'' =
           (if truthy (getField (cellAt h a) ''provider'') then getField (cellAt h a) ''provider''
            else (case getField (cellAt h a) ''model'' of
                    VStr m \<Rightarrow> VStr (providerString (detectProvider m)) | _ \<Rightarrow> VUndef))"
    unfolding c using pv by (simp add: getField_assignAll)
  show t: "getField (cellAt h1 (config llm)) ''timeout'' =
           (if truthy (getField (cellAt h a) ''timeout'') then getField (cellAt h a) ''timeout''
            else VNum (Num 90000))"
    unfolding c by (simp add: getField_assignAll DEFAULT_TIMEOUT_def)
  show e: "getField (cellAt h1 (config llm)) ''enableTracing'' =
           (if nullish (getField (cellAt h a) ''enableTracing'') then VBool True
            else getField (cellAt h a) ''enableTracing'')"
    unfolding c by (simp add: getField_assignAll)
  show "k \<notin> {''provider'', ''timeout'', ''enableTracing''} \<Longrightarrow>
           getField (cellAt h1 (config llm)) k = getField (cellAt h a) k
           \<and> hasField (cellAt h1 (config llm)) k = hasField (cellAt h a) k"
    unfolding c by (simp add: getField_assignAll hasField_assignAll getField_spread hasField_spread)
  show "take (length h) h1 = h" unfolding h1 by simp
  show "truthy (getField (cellAt h1 (config llm)) ''provider'')"
    unfolding c using tp by (simp add: getField_assignAll)
  show "truthy (getField (cellAt h1 (config llm)) ''timeout'')"
    unfolding t by simp
  show "\<not> nullish (getField (cellAt h1 (config llm)) ''enableTracing'')"
    unfolding e by simp
qed


lemma resolved_cell:
  assumes "LLM_new h (VRef a) = Inr (llm, h1)"
  shows "\<exists>kvs. h1 = h @ [Obj kvs] \<and> config llm = length h \<and> distinct (map fst kvs)
           \<and> (\<exists>v. map_of kvs ''provider'' = Some v)
           \<and> (\<exists>v. map_of kvs ''timeout'' = Some v)
           \<and> (\<exists>v. map_of kvs ''enableTracing'' = Some v)"
proof -
  let ?T = "if truthy (getField (cellAt h a) ''timeout'')
            then getField (cellAt h a) ''timeout'' else VNum DEFAULT_TIMEOUT"
  let ?E = "if nullish (getField (cellAt h a) ''enableTracing'')
            then VBool True else getField (cellAt h a) ''enableTracing''"
  from assms obtain prov where
    h1: "h1 = h @ [Obj (assignAll (spread h (VRef a))
                     [(''provider'', prov), (''timeout'', ?T), (''enableTracing'', ?E)])]"
    and l: "llm = \<lparr> config = length h \<rparr>"
    unfolding LLM_new_Inr by blast
  let ?kvs = "assignAll (spread h (VRef a))
                [(''provider'', prov), (''timeout'', ?T), (''enableTracing'', ?E)]"
  have "distinct (map fst ?kvs)" by (intro distinct_assignAll distinct_spread)
  moreover have "\<exists>v. map_of ?kvs ''provider'' = Some v"
    and "\<exists>v. map_of ?kvs ''timeout'' = Some v"
    and "\<exists>v. map_of ?kvs ''enableTracing'' = Some v"
    by (simp_all add: map_of_assignAll)
  ultimately show ?thesis using h1 l by auto
qed

lemma getConfig_eq:
  "getConfig h llm = (VRef (length h), h @ [Obj (spread h (VRef (config llm)))])"
  by (simp add: getConfig_def alloc_def)

lemma LLM_new_idempotent:
  assumes "LLM_new h (VRef a) = Inr (llm, h1)"
  shows "\<exists>llm2 h3. LLM_new (snd (getConfig h1 llm)) (fst (getConfig h1 llm)) = Inr (llm2, h3)
           \<and> cellAt h3 (config llm2) = cellAt h1 (config llm)"
proof -
  from resolved_cell [OF assms] obtain kvs where
    h1: "h1 = h @ [Obj kvs]" and cl: "config llm = length h" and d: "distinct (map fst kvs)"
    and mp: "\<exists>v. map_of kvs ''provider'' = Some v"
    and mt: "\<exists>v. map_of kvs ''timeout'' = Some v"
    and me: "\<exists>v. map_of kvs ''enableTracing'' = Some v"
    by blast
  have r: "cellAt h1 (config llm) = Obj kvs" unfolding h1 cl by (simp add: cellAt_append_new)
  let ?h2 = "h1 @ [Obj kvs]"
  have sp: "spread h1 (VRef (config llm)) = kvs" using r d by (rule spread_Obj)
  have gc: "getConfig h1 llm = (VRef (length h1), ?h2)" by (simp add: getConfig_eq sp)
  have c2: "cellAt ?h2 (length h1) = Obj kvs" by (simp add: cellAt_append_new)
  have sp2: "spread ?h2 (VRef (length h1)) = kvs" using c2 d by (rule spread_Obj)
  have tp: "truthy (getField (Obj kvs) ''provider'')"
    and tt: "truthy (getField (Obj kvs) ''timeout'')"
    and te: "\<not> nullish (getField (Obj kvs) ''enableTracing'')"
    using resolved_fields(6,7,8) [OF assms] unfolding r by simp_all
  have triv: "assignAll kvs
                [(''provider'', getField (Obj kvs) ''provider''),
                 (''timeout'', getField (Obj kvs) ''timeout''),
                 (''enableTracing'', getField (Obj kvs) ''enableTracing'')] = kvs"
    using mp mt me by (intro assignAll_triv) (auto simp: getField_Obj)
  have "LLM_new ?h2 (VRef (length h1)) = Inr (\<lparr> config = length ?h2 \<rparr>, ?h2 @ [Obj kvs])"
    unfolding LLM_new_Inr c2 sp2 using tp tt te triv by simp
  moreover have "cellAt (?h2 @ [Obj kvs]) (length ?h2) = Obj kvs"
    by (rule cellAt_append_new)
  ultimately show ?thesis unfolding gc using r by simp
qed

lemma LLM_new_succeeds:
  assumes "truthy (getField (cellAt h a) ''provider'') \<or> (\<exists>m. getField (cellAt h a) ''model'' = VStr m)"
  shows "\<exists>llm h1. LLM_new h (VRef a) = Inr (llm, h1)"
  using assms unfolding LLM_new_Inr by (auto simp: detectProviderOf_Inr)


text \<open>
  Claim C3. Constructing a dispatcher from a configuration object whose \<open>model\<close> is a
  string succeeds and leaves every object of the store as it was. In the resolved
  configuration \<open>provider\<close> is the given value when there is one (a truthy value, as every
  provider name is) and \<open>detectProvider model\<close> otherwise; \<open>timeout\<close> is the given value
  when it is truthy and 90000 otherwise; \<open>enableTracing\<close> is the given value unless that
  is \<open>undefined\<close> or \<open>null\<close>, and \<open>true\<close> then; every other property is present
  exactly when it was, with the value it had. The merge is idempotent: a second dispatcher
  constructed from the first one's \<open>getConfig()\<close> holds a resolved configuration
  identical to the first.
\<close>

theorem config_resolution_idempotent:
  assumes "getField (cellAt h a) ''model'' = VStr m"
  shows "\<exists>llm h1. LLM_new h (VRef a) = Inr (llm, h1)
     \<and> take (length h) h1 = h
     \<and> getField (cellAt h1 (config llm)) ''provider'' =
           (if truthy (getField (cellAt h a) ''provider'') then getField (cellAt h a) ''provider''
            else VStr (providerString (detectProvider m)))
     \<and> getField (cellAt h1 (config llm)) ''timeout'' =
           (if truthy (getField (cellAt h a) ''timeout'') then getField (cellAt h a) ''timeout''
            else VNum (Num 90000))
     \<and> getField (cellAt h1 (config llm)) ''enableTracing'' =
           (if nullish (getField (cellAt h a) ''enableTracing'') then VBool True
            else getField (cellAt h a) ''enableTracing'')
     \<and> (\<forall>k. k \<notin> {''provider'', ''timeout'', ''enableTracing''} \<longrightarrow>
            getField (cellAt h1 (config llm)) k = getField (cellAt h a) k
            \<and> hasField (cellAt h1 (config llm)) k = hasField (cellAt h a) k)
     \<and> (\<exists>llm2 h3. LLM_new (snd (getConfig h1 llm)) (fst (getConfig h1 llm)) = Inr (llm2, h3)
            \<and> cellAt h3 (config llm2) = cellAt h1 (config llm))"
proof -
  from assms obtain llm h1 where n: "LLM_new h (VRef a) = Inr (llm, h1)"
    using LLM_new_succeeds by blast
  have "getField (cellAt h1 (config llm)) ''provider'' =
           (if truthy (getField (cellAt h a) ''provider'') then getField (cellAt h a) ''provider''
            else VStr (providerString (detectProvider m)))"
    using resolved_fields(1) [OF n] assms by simp
  moreover have "\<forall>k. k \<notin> {''provider'', ''timeout'', ''enableTracing''} \<longrightarrow>
            getField (cellAt h1 (config llm)) k = getField (cellAt h a) k
            \<and> hasField (cellAt h1 (config llm)) k = hasField (cellAt h a) k"
    using resolved_fields(4) [OF n] by blast
  ultimately show ?thesis
    using n resolved_fields(2,3,5) [OF n] LLM_new_idempotent [OF n] by blast
qed

theorem config_resolution_witness:
  "getField (cellAt exampleConfigStore 1) ''model'' = VStr ''Claude-3-5-Sonnet''
   \<and> (\<exists>llm h1. LLM_new exampleConfigStore (VRef 1) = Inr (llm, h1)
         \<and> getField (cellAt h1 (config llm)) ''provider'' = VStr ''anthropic''
         \<and> getField (cellAt h1 (config llm)) ''timeout'' = VNum (Num 90000)
         \<and> getField (cellAt h1 (config llm)) ''enableTracing'' = VBool False
         \<and> getField (cellAt h1 (config llm)) ''traceMetadata'' = VRef 0
         \<and> (\<exists>llm2 h3. LLM_new (snd (getConfig h1 llm)) (fst (getConfig h1 llm)) = Inr (llm2, h3)
               \<and> cellAt h3 (config llm2) = cellAt h1 (config llm)))"
proof -
  have m: "getField (cellAt exampleConfigStore 1) ''model'' = VStr ''Claude-3-5-Sonnet''"
    by code_simp
  have p: "getField (cellAt exampleConfigStore 1) ''provider'' = VUndef" by code_simp
  have t: "getField (cellAt exampleConfigStore 1) ''timeout'' = VNum (Num 0)" by code_simp
  have e: "getField (cellAt exampleConfigStore 1) ''enableTracing'' = VBool False" by code_simp
  have tm: "getField (cellAt exampleConfigStore 1) ''traceMetadata'' = VRef 0" by code_simp
  have d: "providerString (detectProvider ''Claude-3-5-Sonnet'') = ''anthropic''" by code_simp
  have k: "''traceMetadata'' \<notin> {''provider'', ''timeout'', ''enableTracing''}" by simp
  from config_resolution_idempotent [OF m] obtain llm where
    "\<exists>h1. LLM_new exampleConfigStore (VRef 1) = Inr (llm, h1)
     \<and> take (length exampleConfigStore) h1 = exampleConfigStore
     \<and> getField (cellAt h1 (config llm)) ''provider'' =
           (if truthy (getField (cellAt exampleConfigStore 1) ''provider'')
            then getField (cellAt exampleConfigStore 1) ''provider''
            else VStr (providerString (detectProvider ''Claude-3-5-Sonnet'')))
     \<and> getField (cellAt h1 (config llm)) ''timeout'' =
           (if truthy (getField (cellAt exampleConfigStore 1) ''timeout'')
            then getField (cellAt exampleConfigStore 1) ''timeout''
            else VNum (Num 90000))
     \<and> getField (cellAt h1 (config llm)) ''enableTracing'' =
           (if nullish (getField (cellAt exampleConfigStore 1) ''enableTracing'') then VBool True
            else getField (cellAt exampleConfigStore 1) ''enableTracing'')
     \<and> (\<forall>k. k \<notin> {''provider'', ''timeout'', ''enableTracing''} \<longrightarrow>
            getField (cellAt h1 (config llm)) k = getField (cellAt exampleConfigStore 1) k
            \<and> hasField (cellAt h1 (config llm)) k = hasField (cellAt exampleConfigStore 1) k)
     \<and> (\<exists>llm2 h3. LLM_new (snd (getConfig h1 llm)) (fst (getConfig h1 llm)) = Inr (llm2, h3)
            \<and> cellAt h3 (config llm2) = cellAt h1 (config llm))" ..
  then obtain h1 where
    r: "LLM_new exampleConfigStore (VRef 1) = Inr (llm, h1)
     \<and> take (length exampleConfigStore) h1 = exampleConfigStore
     \<and> getField (cellAt h1 (config llm)) ''provider'' =
           (if truthy (getField (cellAt exampleConfigStore 1) ''provider'')
            then getField (cellAt exampleConfigStore 1) ''provider''
            else VStr (providerString (detectProvider ''Claude-3-5-Sonnet'')))
     \<and> getField (cellAt h1 (config llm)) ''timeout'' =
           (if truthy (getField (cellAt exampleConfigStore 1) ''timeout'')
            then getField (cellAt exampleConfigStore 1) ''timeout''
            else VNum (Num 90000))
     \<and> getField (cellAt h1 (config llm)) ''enableTracing'' =
           (if nullish (getField (cellAt exampleConfigStore 1) ''enableTracing'') then VBool True
            else getField (cellAt exampleConfigStore 1) ''enableTracing'')
     \<and> (\<forall>k. k \<notin> {''provider'', ''timeout'', ''enableTracing''} \<longrightarrow>
            getField (cellAt h1 (config llm)) k = getField (cellAt exampleConfigStore 1) k
            \<and> hasField (cellAt h1 (config llm)) k = hasField (cellAt exampleConfigStore 1) k)
     \<and> (\<exists>llm2 h3. LLM_new (snd (getConfig h1 llm)) (fst (getConfig h1 llm)) = Inr (llm2, h3)
            \<and> cellAt h3 (config llm2) = cellAt h1 (config llm))" ..
  note r1 = r [THEN conjunct1]
  note r3 = r [THEN conjunct2, THEN conjunct2, THEN conjunct1, unfolded p d]
  note r4 = r [THEN conjunct2, THEN conjunct2, THEN conjunct2, THEN conjunct1, unfolded t]
  note r5 = r [THEN conjunct2, THEN conjunct2, THEN conjunct2, THEN conjunct2, THEN conjunct1,
               unfolded e]
  note r6 = r [THEN conjunct2, THEN conjunct2, THEN conjunct2, THEN conjunct2, THEN conjunct2,
               THEN conjunct1, rule_format, OF k, THEN conjunct1, unfolded tm]
  note r7 = r [THEN conjunct2, THEN conjunct2, THEN conjunct2, THEN conjunct2, THEN conjunct2,
               THEN conjunct2]
  have r3': "getField (cellAt h1 (config llm)) ''provider'' = VStr ''anthropic''"
    using r3 by simp
  have r4': "getField (cellAt h1 (config llm)) ''timeout'' = VNum (Num 90000)"
    using r4 by simp
  have r5': "getField (cellAt h1 (config llm)) ''enableTracing'' = VBool False"
    using r5 by simp
  have ex: "\<exists>llm h1. LLM_new exampleConfigStore (VRef 1) = Inr (llm, h1)
         \<and> getField (cellAt h1 (config llm)) ''provider'' = VStr ''anthropic''
         \<and> getField (cellAt h1 (config llm)) ''timeout'' = VNum (Num 90000)
         \<and> getField (cellAt h1 (config llm)) ''enableTracing'' = VBool False
         \<and> getField (cellAt h1 (config llm)) ''traceMetadata'' = VRef 0
         \<and> (\<exists>llm2 h3. LLM_new (snd (getConfig h1 llm)) (fst (getConfig h1 llm)) = Inr (llm2, h3)
               \<and> cellAt h3 (config llm2) = cellAt h1 (config llm))"
    using r1 r3' r4' r5' r6 r7 by blast
  show ?thesis by (rule conjI [OF m ex])
qed


lemma map_of_rev_distinct: "distinct (map fst ps) \<Longrightarrow> map_of (rev ps) = map_of ps"
proof (induction ps)
  case Nil
  show ?case by simp
next
  case (Cons p ps)
  then have d: "fst p \<notin> fst ` set ps" and ih: "map_of (rev ps) = map_of ps" by simp_all
  have "map_of (rev (p # ps)) = map_of [p] ++ map_of (rev ps)"
    by (simp only: rev.simps map_of_append)
  also have "\<dots> = map_of [p] ++ map_of ps" using ih by simp
  also have "\<dots> = map_of (p # ps)"
  proof (rule ext)
    fix k
    show "(map_of [p] ++ map_of ps) k = map_of (p # ps) k"
    proof (cases "k = fst p")
      case True
      with d have "map_of ps k = None" by (simp add: map_of_eq_None_iff)
      with True show ?thesis by (cases p) (simp add: map_add_def)
    next
      case False
      then show ?thesis by (cases p) (simp add: map_add_def split: option.splits)
    qed
  qed
  finally show ?case .
qed

lemma getField_literal:
  "getField (Obj (assignAll t (spread h (VRef opts)))) k =
     (if hasField (cellAt h opts) k then getField (cellAt h opts) k
      else (case map_of t k of None \<Rightarrow> VUndef | Some v \<Rightarrow> v))"
proof -
  let ?ps = "spread h (VRef opts)"
  have d: "distinct (map fst ?ps)" by (rule distinct_spread)
  have a: "getField (Obj (assignAll t ?ps)) k =
             (case map_of ?ps k of None \<Rightarrow> getField (Obj t) k | Some v \<Rightarrow> v)"
    unfolding getField_assignAll map_of_rev_distinct [OF d] ..
  have h: "hasField (cellAt h opts) k \<longleftrightarrow> map_of ?ps k \<noteq> None"
    unfolding hasField_spread [symmetric] hasField_Obj by (simp add: map_of_eq_None_iff)
  have g: "getField (cellAt h opts) k = (case map_of ?ps k of None \<Rightarrow> VUndef | Some v \<Rightarrow> v)"
    unfolding getField_spread [symmetric] getField_Obj ..
  show ?thesis unfolding a h g by (simp add: getField_Obj split: option.splits)
qed

lemma spread_primitive: "(\<forall>a. opts \<noteq> VRef a) \<Longrightarrow> spread h opts = []"
  by (cases opts) (simp_all add: spread_def)

lemma LLM_new_keeps_model:
  assumes "LLM_new h (VRef a) = Inr (llm, h1)"
  shows "getField (cellAt h1 (config llm)) ''model'' = getField (cellAt h a) ''model''"
    and "getField (cellAt h1 (config llm)) ''schema'' = getField (cellAt h a) ''schema''"
  using resolved_fields(4) [OF assms, of "''model''"] resolved_fields(4) [OF assms, of "''schema''"]
  by simp_all

text \<open>
  Claim C10. The convenience functions build their dispatcher from the literal
  \<^verbatim>\<open>{ model, ...options }\<close> (\<^verbatim>\<open>{ model, schema, ...options }\<close>), in which a property
  of the options bag replaces the positional argument of the same name: the \<open>model\<close>
  (and the \<open>schema\<close>) of the literal, and of the resolved configuration of the
  dispatcher built from it, is the one of \<open>options\<close> whenever \<open>options\<close> has that
  key, and the positional argument otherwise.
\<close>

theorem options_override_positional_arguments:
  "generate rt w mdl prmpt (VRef opts) =
     (case createLLM (store w @ [generateLiteral (store w) mdl (VRef opts)]) (VRef (length (store w))) of
        Inl e \<Rightarrow> (Inl e, w \<lparr> store := store w @ [generateLiteral (store w) mdl (VRef opts)] \<rparr>)
      | Inr (llm, h2) \<Rightarrow>
          (case LLM_generate rt (w \<lparr> store := h2 \<rparr>) llm prmpt of
             (Inl e, w') \<Rightarrow> (Inl e, w')
           | (Inr response, w') \<Rightarrow> (Inr (content response), w')))
   \<and> generateStructured rt w mdl prmpt schema (VRef opts) =
     (case createLLM (store w @ [generateStructuredLiteral (store w) mdl schema (VRef opts)])
             (VRef (length (store w))) of
        Inl e \<Rightarrow> (Inl e, w \<lparr> store := store w @ [generateStructuredLiteral (store w) mdl schema (VRef opts)] \<rparr>)
      | Inr (llm, h2) \<Rightarrow>
          (case LLM_generate rt (w \<lparr> store := h2 \<rparr>) llm prmpt of
             (Inl e, w') \<Rightarrow> (Inl e, w')
           | (Inr response, w') \<Rightarrow> (Inr (orEmptyObject (structuredOutput response)), w')))
   \<and> getField (generateLiteral (store w) mdl (VRef opts)) ''model'' =
       (if hasField (cellAt (store w) opts) ''model'' then getField (cellAt (store w) opts) ''model''
        else VStr mdl)
   \<and> getField (generateStructuredLiteral (store w) mdl schema (VRef opts)) ''model'' =
       (if hasField (cellAt (store w) opts) ''model'' then getField (cellAt (store w) opts) ''model''
        else VStr mdl)
   \<and> getField (generateStructuredLiteral (store w) mdl schema (VRef opts)) ''schema'' =
       (if hasField (cellAt (store w) opts) ''schema'' then getField (cellAt (store w) opts) ''schema''
        else schema)
   \<and> (\<forall>llm h2. createLLM (store w @ [generateLiteral (store w) mdl (VRef opts)])
                   (VRef (length (store w))) = Inr (llm, h2) \<longrightarrow>
          getField (cellAt h2 (config llm)) ''model'' =
            (if hasField (cellAt (store w) opts) ''model''
             then getField (cellAt (store w) opts) ''model'' else VStr mdl))
   \<and> (\<forall>llm h2. createLLM (store w @ [generateStructuredLiteral (store w) mdl schema (VRef opts)])
                   (VRef (length (store w))) = Inr (llm, h2) \<longrightarrow>
          getField (cellAt h2 (config llm)) ''model'' =
            (if hasField (cellAt (store w) opts) ''model''
             then getField (cellAt (store w) opts) ''model'' else VStr mdl)
          \<and> getField (cellAt h2 (config llm)) ''schema'' =
            (if hasField (cellAt (store w) opts) ''schema''
             then getField (cellAt (store w) opts) ''schema'' else schema))"
proof -
  let ?h = "store w"
  let ?l1 = "generateLiteral ?h mdl (VRef opts)"
  let ?l2 = "generateStructuredLiteral ?h mdl schema (VRef opts)"
  have g: "generate rt w mdl prmpt (VRef opts) =
     (case createLLM (?h @ [?l1]) (VRef (length ?h)) of
        Inl e \<Rightarrow> (Inl e, w \<lparr> store := ?h @ [?l1] \<rparr>)
      | Inr (llm, h2) \<Rightarrow>
          (case LLM_generate rt (w \<lparr> store := h2 \<rparr>) llm prmpt of
             (Inl e, w') \<Rightarrow> (Inl e, w')
           | (Inr response, w') \<Rightarrow> (Inr (content response), w')))"
    by (simp add: generate_def alloc_def)
  have gs: "generateStructured rt w mdl prmpt schema (VRef opts) =
     (case createLLM (?h @ [?l2]) (VRef (length ?h)) of
        Inl e \<Rightarrow> (Inl e, w \<lparr> store := ?h @ [?l2] \<rparr>)
      | Inr (llm, h2) \<Rightarrow>
          (case LLM_generate rt (w \<lparr> store := h2 \<rparr>) llm prmpt of
             (Inl e, w') \<Rightarrow> (Inl e, w')
           | (Inr response, w') \<Rightarrow> (Inr (orEmptyObject (structuredOutput response)), w')))"
    by (simp add: generateStructured_def alloc_def)
  have m1: "getField ?l1 ''model'' =
       (if hasField (cellAt ?h opts) ''model'' then getField (cellAt ?h opts) ''model'' else VStr mdl)"
    unfolding generateLiteral_def getField_literal by simp
  have m2: "getField ?l2 ''model'' =
       (if hasField (cellAt ?h opts) ''model'' then getField (cellAt ?h opts) ''model'' else VStr mdl)"
    unfolding generateStructuredLiteral_def getField_literal by simp
  have s2: "getField ?l2 ''schema'' =
       (if hasField (cellAt ?h opts) ''schema'' then getField (cellAt ?h opts) ''schema'' else schema)"
    unfolding generateStructuredLiteral_def getField_literal by simp
  have d1: "\<forall>llm h2. createLLM (?h @ [?l1]) (VRef (length ?h)) = Inr (llm, h2) \<longrightarrow>
          getField (cellAt h2 (config llm)) ''model'' =
            (if hasField (cellAt ?h opts) ''model'' then getField (cellAt ?h opts) ''model''
             else VStr mdl)"
    using m1 by (auto simp: createLLM_def cellAt_append_new dest!: LLM_new_keeps_model(1))
  have d2: "\<forall>llm h2. createLLM (?h @ [?l2]) (VRef (length ?h)) = Inr (llm, h2) \<longrightarrow>
          getField (cellAt h2 (config llm)) ''model'' =
            (if hasField (cellAt ?h opts) ''model'' then getField (cellAt ?h opts) ''model''
             else VStr mdl)
          \<and> getField (cellAt h2 (config llm)) ''schema'' =
            (if hasField (cellAt ?h opts) ''schema'' then getField (cellAt ?h opts) ''schema''
             else schema)"
  proof (intro allI impI)
    fix llm h2
    assume "createLLM (?h @ [?l2]) (VRef (length ?h)) = Inr (llm, h2)"
    then have n: "LLM_new (?h @ [?l2]) (VRef (length ?h)) = Inr (llm, h2)"
      by (simp add: createLLM_def)
    show "getField (cellAt h2 (config llm)) ''model'' =
            (if hasField (cellAt ?h opts) ''model'' then getField (cellAt ?h opts) ''model''
             else VStr mdl)
          \<and> getField (cellAt h2 (config llm)) ''schema'' =
            (if hasField (cellAt ?h opts) ''schema'' then getField (cellAt ?h opts) ''schema''
             else schema)"
      using LLM_new_keeps_model [OF n] m2 s2 by (simp add: cellAt_append_new)
  qed
  from g gs m1 m2 s2 d1 d2 show ?thesis by blast
qed


theorem options_override_witness:
  "hasField (cellAt (store optionsWorld) 3) ''model''
   \<and> hasField (cellAt (store optionsWorld) 3) ''schema''
   \<and> createLLM (store optionsWorld @ [generateLiteral (store optionsWorld) ''gpt-4'' (VRef 3)])
         (VRef (length (store optionsWorld))) = Inr (\<lparr> config = 5 \<rparr>, optionsDispatcherStore)
   \<and> createLLM (store optionsWorld @ [generateStructuredLiteral (store optionsWorld) ''gpt-4'' (VRef 0) (VRef 3)])
         (VRef (length (store optionsWorld))) = Inr (\<lparr> config = 5 \<rparr>, optionsDispatcherStore)
   \<and> getField (generateLiteral (store optionsWorld) ''gpt-4'' (VRef 3)) ''model'' = VStr ''claude-3-opus''
   \<and> getField (generateStructuredLiteral (store optionsWorld) ''gpt-4'' (VRef 0) (VRef 3)) ''model''
       = VStr ''claude-3-opus''
   \<and> getField (generateStructuredLiteral (store optionsWorld) ''gpt-4'' (VRef 0) (VRef 3)) ''schema''
       = VRef 2
   \<and> getField (cellAt optionsDispatcherStore (config \<lparr> config = 5 \<rparr>)) ''model'' = VStr ''claude-3-opus''
   \<and> getField (cellAt optionsDispatcherStore (config \<lparr> config = 5 \<rparr>)) ''schema'' = VRef 2"
proof -
  have hm: "hasField (cellAt (store optionsWorld) 3) ''model''" by code_simp
  have hs: "hasField (cellAt (store optionsWorld) 3) ''schema''" by code_simp
  have gm: "getField (cellAt (store optionsWorld) 3) ''model'' = VStr ''claude-3-opus''" by code_simp
  have gs: "getField (cellAt (store optionsWorld) 3) ''schema'' = VRef 2" by code_simp
  have c1: "createLLM (store optionsWorld @ [generateLiteral (store optionsWorld) ''gpt-4'' (VRef 3)])
         (VRef (length (store optionsWorld))) = Inr (\<lparr> config = 5 \<rparr>, optionsDispatcherStore)"
    by code_simp
  have c2: "createLLM (store optionsWorld @ [generateStructuredLiteral (store optionsWorld) ''gpt-4'' (VRef 0) (VRef 3)])
         (VRef (length (store optionsWorld))) = Inr (\<lparr> config = 5 \<rparr>, optionsDispatcherStore)"
    by code_simp
  note T = options_override_positional_arguments
             [of "exampleRuntime (textReply ''4'') [] None" optionsWorld "''gpt-4''" "PromptText ''hi''"
                 3 "VRef 0"]
  note t3 = T [THEN conjunct2, THEN conjunct2, THEN conjunct1]
  note t4 = T [THEN conjunct2, THEN conjunct2, THEN conjunct2, THEN conjunct1]
  note t5 = T [THEN conjunct2, THEN conjunct2, THEN conjunct2, THEN conjunct2, THEN conjunct1]
  note t7 = T [THEN conjunct2, THEN conjunct2, THEN conjunct2, THEN conjunct2, THEN conjunct2,
               THEN conjunct2, rule_format, OF c2]
  have l1: "getField (generateLiteral (store optionsWorld) ''gpt-4'' (VRef 3)) ''model''
              = VStr ''claude-3-opus''"
    using t3 hm gm by simp
  have l2: "getField (generateStructuredLiteral (store optionsWorld) ''gpt-4'' (VRef 0) (VRef 3)) ''model''
              = VStr ''claude-3-opus''"
    using t4 hm gm by simp
  have l3: "getField (generateStructuredLiteral (store optionsWorld) ''gpt-4'' (VRef 0) (VRef 3)) ''schema''
              = VRef 2"
    using t5 hs gs by simp
  have d1: "getField (cellAt optionsDispatcherStore (config \<lparr> config = 5 \<rparr>)) ''model''
              = VStr ''claude-3-opus''"
    using t7 [THEN conjunct1] hm gm by simp
  have d2: "getField (cellAt optionsDispatcherStore (config \<lparr> config = 5 \<rparr>)) ''schema'' = VRef 2"
    using t7 [THEN conjunct2] hs gs by simp
  show ?thesis by (intro conjI) (rule hm hs c1 c2 l1 l2 l3 d1 d2)+
qed

lemma setProp_other: "b \<noteq> g \<Longrightarrow> cellAt (setProp h (VRef g) k v) b = cellAt h b"
  by (auto simp: setProp_def cellAt_def split: cell.splits)

text \<open>
  Claim C5, as the code has it. \<open>getConfig()\<close> returns a fresh object holding the
  properties of the resolved configuration, a shallow copy. Whatever the caller does to
  the returned object itself (assigning or deleting its properties, modelled as replacing
  the object, and property assignment in particular) changes no object that existed
  before the call: the dispatcher's configuration stays what it was, and a later
  \<open>getConfig()\<close> returns another fresh object with the original properties. The objects
  the properties refer to (\<open>traceMetadata\<close>, \<open>schema\<close>) are shared with the dispatcher;
  \<open>getConfig_nested_counterexample\<close> shows a write through the copy into
  \<open>traceMetadata\<close> that the next read observes.
\<close>

theorem getConfig_copy_is_shallow:
  assumes "LLM_new h cfg = Inr (llm, h1)"
  shows "\<exists>g h2. getConfig h1 llm = (VRef g, h2)
     \<and> g = length h1 \<and> config llm < length h1
     \<and> cellAt h2 g = Obj (spread h1 (VRef (config llm)))
     \<and> (\<forall>c'. take (length h1) (h2[g := c']) = h1
              \<and> cellAt (h2[g := c']) (config llm) = cellAt h1 (config llm)
              \<and> spread (h2[g := c']) (VRef (config llm)) = spread h1 (VRef (config llm)))
     \<and> (\<forall>k v. take (length h1) (setProp h2 (VRef g) k v) = h1
              \<and> fst (getConfig (setProp h2 (VRef g) k v) llm) \<noteq> VRef g
              \<and> cellAt (snd (getConfig (setProp h2 (VRef g) k v) llm))
                   (length (setProp h2 (VRef g) k v))
                 = cellAt h2 g)"
proof -
  from assms obtain a where cfg: "cfg = VRef a"
    by (cases cfg) (simp_all add: LLM_new_def)
  from resolved_cell [OF assms [unfolded cfg]] obtain kvs where
    h1: "h1 = h @ [Obj kvs]" and cl: "config llm = length h" and d: "distinct (map fst kvs)"
    by blast
  let ?g = "length h1"
  let ?h2 = "h1 @ [Obj (spread h1 (VRef (config llm)))]"
  have gc: "getConfig h1 llm = (VRef ?g, ?h2)" by (rule getConfig_eq)
  have lt: "config llm < length h1" unfolding h1 cl by simp
  have c: "cellAt ?h2 ?g = Obj (spread h1 (VRef (config llm)))" by (rule cellAt_append_new)
  have fr: "\<And>c'. take (length h1) (?h2[?g := c']) = h1" by simp
  have cc: "\<And>c'. cellAt (?h2[?g := c']) (config llm) = cellAt h1 (config llm)"
    using lt by (simp add: cellAt_def nth_append)
  have sp: "\<And>c'. spread (?h2[?g := c']) (VRef (config llm)) = spread h1 (VRef (config llm))"
    using cc by (simp add: spread_def)
  have l: "\<And>k v. length (setProp ?h2 (VRef ?g) k v) = Suc (length h1)"
    by (simp add: setProp_def split: cell.splits)
  have t: "\<And>k v. take (length h1) (setProp ?h2 (VRef ?g) k v) = h1"
    by (simp add: setProp_def split: cell.splits)
  have sc: "\<And>k v. cellAt (setProp ?h2 (VRef ?g) k v) (config llm) = cellAt h1 (config llm)"
    using lt by (simp add: setProp_other cellAt_append_old)
  have ne: "\<And>k v. fst (getConfig (setProp ?h2 (VRef ?g) k v) llm) \<noteq> VRef ?g"
    by (simp add: getConfig_eq l)
  have again: "\<And>k v. cellAt (snd (getConfig (setProp ?h2 (VRef ?g) k v) llm))
                   (length (setProp ?h2 (VRef ?g) k v)) = cellAt ?h2 ?g"
    using sc by (simp add: getConfig_eq cellAt_append_new c spread_def)
  show ?thesis using gc lt c fr cc sp t ne again by blast
qed


theorem getConfig_copy_witness:
  "LLM_new exampleConfigStore (VRef 1) = Inr (\<lparr> config = 2 \<rparr>, resolvedConfigStore)
   \<and> (\<exists>g h2. getConfig resolvedConfigStore \<lparr> config = 2 \<rparr> = (VRef g, h2)
         \<and> g = 3
         \<and> take 3 (setProp h2 (VRef g) ''model'' (VStr ''evil'')) = resolvedConfigStore
         \<and> take 3 (h2[g := Arr []]) = resolvedConfigStore
         \<and> cellAt (snd (getConfig (setProp h2 (VRef g) ''model'' (VStr ''evil'')) \<lparr> config = 2 \<rparr>))
              (length (setProp h2 (VRef g) ''model'' (VStr ''evil'')))
            = cellAt h2 g)"
proof -
  have l: "length resolvedConfigStore = 3" by code_simp
  from getConfig_copy_is_shallow [OF example_LLM_new] obtain g where
    "\<exists>h2. getConfig resolvedConfigStore \<lparr> config = 2 \<rparr> = (VRef g, h2)
     \<and> g = length resolvedConfigStore \<and> config \<lparr> config = 2 \<rparr> < length resolvedConfigStore
     \<and> cellAt h2 g = Obj (spread resolvedConfigStore (VRef (config \<lparr> config = 2 \<rparr>)))
     \<and> (\<forall>c'. take (length resolvedConfigStore) (h2[g := c']) = resolvedConfigStore
              \<and> cellAt (h2[g := c']) (config \<lparr> config = 2 \<rparr>)
                   = cellAt resolvedConfigStore (config \<lparr> config = 2 \<rparr>)
              \<and> spread (h2[g := c']) (VRef (config \<lparr> config = 2 \<rparr>))
                   = spread resolvedConfigStore (VRef (config \<lparr> config = 2 \<rparr>)))
     \<and> (\<forall>k v. take (length resolvedConfigStore) (setProp h2 (VRef g) k v) = resolvedConfigStore
              \<and> fst (getConfig (setProp h2 (VRef g) k v) \<lparr> config = 2 \<rparr>) \<noteq> VRef g
              \<and> cellAt (snd (getConfig (setProp h2 (VRef g) k v) \<lparr> config = 2 \<rparr>))
                   (length (setProp h2 (VRef g) k v))
                 = cellAt h2 g)" ..
  then obtain h2 where
    r: "getConfig resolvedConfigStore \<lparr> config = 2 \<rparr> = (VRef g, h2)
     \<and> g = length resolvedConfigStore \<and> config \<lparr> config = 2 \<rparr> < length resolvedConfigStore
     \<and> cellAt h2 g = Obj (spread resolvedConfigStore (VRef (config \<lparr> config = 2 \<rparr>)))
     \<and> (\<forall>c'. take (length resolvedConfigStore) (h2[g := c']) = resolvedConfigStore
              \<and> cellAt (h2[g := c']) (config \<lparr> config = 2 \<rparr>)
                   = cellAt resolvedConfigStore (config \<lparr> config = 2 \<rparr>)
              \<and> spread (h2[g := c']) (VRef (config \<lparr> config = 2 \<rparr>))
                   = spread resolvedConfigStore (VRef (config \<lparr> config = 2 \<rparr>)))
     \<and> (\<forall>k v. take (length resolvedConfigStore) (setProp h2 (VRef g) k v) = resolvedConfigStore
              \<and> fst (getConfig (setProp h2 (VRef g) k v) \<lparr> config = 2 \<rparr>) \<noteq> VRef g
              \<and> cellAt (snd (getConfig (setProp h2 (VRef g) k v) \<lparr> config = 2 \<rparr>))
                   (length (setProp h2 (VRef g) k v))
                 = cellAt h2 g)" ..
  note r1 = r [THEN conjunct1]
  note r2 = r [THEN conjunct2, THEN conjunct1, unfolded l]
  note r5 = r [THEN conjunct2, THEN conjunct2, THEN conjunct2, THEN conjunct2, THEN conjunct1,
               rule_format, of "Arr []", THEN conjunct1, unfolded l]
  note r6 = r [THEN conjunct2, THEN conjunct2, THEN conjunct2, THEN conjunct2, THEN conjunct2,
               rule_format, of "''model''" "VStr ''evil''", unfolded l]
  have ex: "\<exists>g h2. getConfig resolvedConfigStore \<lparr> config = 2 \<rparr> = (VRef g, h2)
         \<and> g = 3
         \<and> take 3 (setProp h2 (VRef g) ''model'' (VStr ''evil'')) = resolvedConfigStore
         \<and> take 3 (h2[g := Arr []]) = resolvedConfigStore
         \<and> cellAt (snd (getConfig (setProp h2 (VRef g) ''model'' (VStr ''evil'')) \<lparr> config = 2 \<rparr>))
              (length (setProp h2 (VRef g) ''model'' (VStr ''evil'')))
            = cellAt h2 g"
    using r1 r2 r5 r6 by blast
  show ?thesis by (rule conjI [OF example_LLM_new ex])
qed

theorem getConfig_nested_counterexample:
  "LLM_new exampleConfigStore (VRef 1) = Inr (\<lparr> config = 2 \<rparr>, resolvedConfigStore)
   \<and> JSON_stringify (snd firstRead) [] (fst firstRead)
       = Inr (Some (JObj [(''model'', JStr ''Claude-3-5-Sonnet''), (''timeout'', JNum 90000),
                          (''enableTracing'', JBool False),
                          (''traceMetadata'', JObj [(''userId'', JStr ''u1'')]),
                          (''provider'', JStr ''anthropic'')]))
   \<and> JSON_stringify (snd secondRead) [] (fst secondRead)
       = Inr (Some (JObj [(''model'', JStr ''Claude-3-5-Sonnet''), (''timeout'', JNum 90000),
                          (''enableTracing'', JBool False),
                          (''traceMetadata'', JObj [(''userId'', JStr ''evil'')]),
                          (''provider'', JStr ''anthropic'')]))
   \<and> getProp storeAfterNestedWrite (VRef 2) ''traceMetadata'' = VRef 0
   \<and> cellAt storeAfterNestedWrite 0 = Obj [(''userId'', VStr ''evil'')]"
  by code_simp

section \<open>The adapter: response extraction and error normalisation\<close>

lemma extractContent_unsupported:
  assumes "\<not> firstOutputText c"
  shows "extractContent c = Inl (Typed unsupportedFormat)
     \<or> extractContent c = Inl (typeError ''Cannot read properties of undefined (reading 'type')'')"
proof (cases "outputItems c")
  case Nil
  then show ?thesis by (simp add: extractContent_def)
next
  case outer: (Cons item rest)
  show ?thesis
  proof (cases item)
    case (Message parts)
    show ?thesis
    proof (cases parts)
      case Nil
      with outer Message show ?thesis by (simp add: extractContent_def)
    next
      case (Cons part others)
      with outer Message assms show ?thesis
        by (cases part) (simp_all add: extractContent_def firstOutputText_def)
    qed
  qed (use outer in \<open>simp_all add: extractContent_def\<close>)
qed

lemma catchBlock_typed: "catchBlock cfg (Typed e) = Typed e"
  by (simp add: catchBlock_def)

lemma catchBlock_unsupported:
  "name unsupportedFormat = ''LLMError'' \<and> statusCode unsupportedFormat = Num 500 \<and> provider unsupportedFormat = Some OpenAI"
  by (simp add: unsupportedFormat_def newLLMError_def)

lemma catchBlock_typeError:
  "\<exists>e. catchBlock cfg (typeError m) = Typed e \<and> name e = ''LLMError'' \<and> statusCode e = Num 500 \<and> provider e = Some OpenAI"
  by (simp add: catchBlock_def typeError_def newLLMError_def)

text \<open>
  Claim C9. When the request was built and the backend answers with a completion whose
  first output item is not a message with output text as its first content part
  (tool-call-only, refusal-only and empty output among them), \<open>generateWithOpenAI\<close>
  fails with a generic \<open>LLMError\<close> with status 500 and provider \<open>openai\<close>; it returns no
  response.
\<close>

theorem unsupported_shape_fails:
  assumes "buildRequest w prmpt a = (Inr params, w2)"
    and "backend rt params (getField (cellAt (store w2) a) ''timeout'') = Completes c"
    and "\<not> firstOutputText c"
  shows "\<exists>e. generateWithOpenAI rt w prmpt a = (Inl (Typed e), w2 \<lparr> calls := Suc (calls w2) \<rparr>)
           \<and> name e = ''LLMError'' \<and> statusCode e = Num 500 \<and> provider e = Some OpenAI"
proof -
  from extractContent_unsupported [OF assms(3)]
  show ?thesis
  proof
    assume "extractContent c = Inl (Typed unsupportedFormat)"
    then show ?thesis using assms(1,2) catchBlock_unsupported
      by (simp add: generateWithOpenAI_def tryBlock_def catchBlock_typed)
  next
    assume e: "extractContent c = Inl (typeError ''Cannot read properties of undefined (reading 'type')'')"
    obtain e' where "catchBlock (cellAt (store w2) a) (typeError ''Cannot read properties of undefined (reading 'type')'') = Typed e'"
      "name e' = ''LLMError''" "statusCode e' = Num 500" "provider e' = Some OpenAI"
      using catchBlock_typeError by blast
    then show ?thesis using assms(1,2) e
      by (simp add: generateWithOpenAI_def tryBlock_def)
  qed
qed


theorem unsupported_shape_witness:
  "buildRequest (exampleWorld \<lparr> store := dispatcherStore \<rparr>) (PromptText ''hi'') 4
     = (Inr exampleRequest, preparedWorld)
   \<and> \<not> firstOutputText \<lparr> outputItems = [FunctionCall], completionUsage = None \<rparr>
   \<and> \<not> firstOutputText \<lparr> outputItems = [Message [Refusal ''I cannot help'']], completionUsage = None \<rparr>
   \<and> \<not> firstOutputText \<lparr> outputItems = [], completionUsage = None \<rparr>
   \<and> (\<exists>e. generateWithOpenAI (exampleRuntime (shapeReply [FunctionCall]) [] None)
              (exampleWorld \<lparr> store := dispatcherStore \<rparr>) (PromptText ''hi'') 4
            = (Inl (Typed e), preparedWorld \<lparr> calls := Suc (calls preparedWorld) \<rparr>)
          \<and> name e = ''LLMError'' \<and> statusCode e = Num 500 \<and> provider e = Some OpenAI)
   \<and> (\<exists>e. generateWithOpenAI (exampleRuntime (shapeReply [Message [Refusal ''I cannot help'']]) [] None)
              (exampleWorld \<lparr> store := dispatcherStore \<rparr>) (PromptText ''hi'') 4
            = (Inl (Typed e), preparedWorld \<lparr> calls := Suc (calls preparedWorld) \<rparr>)
          \<and> name e = ''LLMError'' \<and> statusCode e = Num 500 \<and> provider e = Some OpenAI)
   \<and> (\<exists>e. generateWithOpenAI (exampleRuntime (shapeReply []) [] None)
              (exampleWorld \<lparr> store := dispatcherStore \<rparr>) (PromptText ''hi'') 4
            = (Inl (Typed e), preparedWorld \<lparr> calls := Suc (calls preparedWorld) \<rparr>)
          \<and> name e = ''LLMError'' \<and> statusCode e = Num 500 \<and> provider e = Some OpenAI)"
proof -
  have s1: "\<not> firstOutputText \<lparr> outputItems = [FunctionCall], completionUsage = None \<rparr>"
    by (simp add: firstOutputText_def)
  have s2: "\<not> firstOutputText \<lparr> outputItems = [Message [Refusal ''I cannot help'']], completionUsage = None \<rparr>"
    by (simp add: firstOutputText_def)
  have s3: "\<not> firstOutputText \<lparr> outputItems = [], completionUsage = None \<rparr>"
    by (simp add: firstOutputText_def)
  have k: "\<And>items. backend (exampleRuntime (shapeReply items) [] None) exampleRequest
              (getField (cellAt (store preparedWorld) 4) ''timeout'')
            = Completes \<lparr> outputItems = items, completionUsage = None \<rparr>"
    by (simp add: exampleRuntime_def shapeReply_def)
  note a = unsupported_shape_fails [OF example_buildRequest k s1]
  note b = unsupported_shape_fails [OF example_buildRequest k s2]
  note c = unsupported_shape_fails [OF example_buildRequest k s3]
  show ?thesis by (intro conjI) (rule example_buildRequest s1 s2 s3 a b c)+
qed

lemma showNat_90000: "numberToString (Num 90000) = ''90000''"
  by (simp add: showMagnitude_def showNat.simps digit_def)

lemma numberToString_safe:
  "0 \<le> i \<Longrightarrow> i \<le> 2 ^ 53 \<Longrightarrow> numberToString (Num i) = showNat (nat i)"
  by (simp add: showMagnitude_def nat_le_iff)

lemma catchBlock_abort:
  "errName f = Some ''AbortError'' \<Longrightarrow>
     catchBlock cfg (Foreign f) =
       Typed (TimeoutError OpenAI
                (if nullish (getField cfg ''timeout'') then VNum (Num 90000) else getField cfg ''timeout''))"
  by (simp add: catchBlock_def)

lemma TimeoutError_fields:
  "name (TimeoutError OpenAI t) = ''TimeoutError'' \<and> statusCode (TimeoutError OpenAI t) = Num 408
   \<and> provider (TimeoutError OpenAI t) = Some OpenAI \<and> code (TimeoutError OpenAI t) = Some ''TIMEOUT''
   \<and> message (TimeoutError OpenAI t) = ''Request to openai timed out after '' @ toStringVal t @ ''ms''"
  by (simp add: TimeoutError_def newLLMError_def)

lemma catchBlock_other:
  "errName f \<noteq> Some ''AbortError'' \<Longrightarrow>
     catchBlock cfg (Foreign f) =
       Typed \<lparr> name = ''LLMError'',
               message = (case errMessage f of
                            Some m \<Rightarrow> if m \<noteq> [] then m else ''OpenAI generation failed''
                          | None \<Rightarrow> ''OpenAI generation failed''),
               statusCode = (case errStatus f of
                               Some st \<Rightarrow> if st = NaN \<or> st = Num 0 then Num 500 else st
                             | None \<Rightarrow> Num 500),
               provider = Some OpenAI, code = None, originalError = Some (ErrorObject f) \<rparr>"
  by (simp add: catchBlock_def newLLMError_def split: option.splits)

lemma catchBlock_primitive:
  "p \<noteq> PUndefined \<Longrightarrow> p \<noteq> PNull \<Longrightarrow>
     catchBlock cfg (Primitive p) =
       Typed \<lparr> name = ''LLMError'', message = ''OpenAI generation failed'', statusCode = Num 500,
               provider = Some OpenAI, code = None, originalError = Some (PrimitiveValue p) \<rparr>"
  by (cases p) (simp_all add: catchBlock_def newLLMError_def)

lemma catchBlock_nullish:
  "catchBlock cfg (Primitive PUndefined) = typeError ''Cannot read properties of undefined (reading 'name')''"
  "catchBlock cfg (Primitive PNull) = typeError ''Cannot read properties of null (reading 'name')''"
  by (simp_all add: catchBlock_def)

text \<open>
  Claim C4, as the code has it. When the backend call throws, \<open>generateWithOpenAI\<close>
  fails with what the \<^verbatim>\<open>catch\<close> block makes of the thrown value. An error of the
  library's own taxonomy is rethrown unchanged. An error object carrying the name
  \<open>AbortError\<close>, the one abort the block recognises, becomes a \<open>TimeoutError\<close> with
  status 408 and code \<open>TIMEOUT\<close> whose message echoes the configured timeout: 90000 when
  the configuration sets none, the printed Number otherwise (its decimal digits for an
  integer up to \<open>2 ^ 53\<close>). Every other error object becomes a generic \<open>LLMError\<close> with
  the underlying message (or the fallback when that is missing or empty), provider
  \<open>openai\<close>, the thrown object as cause, and the underlying status code when that is
  present and truthy, 500 when it is missing, 0 or \<open>NaN\<close>; a thrown boolean, number or
  string becomes the same with the fallback message and status 500. On a thrown
  \<^verbatim>\<open>undefined\<close> or \<^verbatim>\<open>null\<close> the block itself fails, with the \<open>TypeError\<close> of reading
  \<^verbatim>\<open>name\<close>, which is what leaves \<open>generateWithOpenAI\<close>.
\<close>

theorem backend_failure_normalised:
  assumes "buildRequest w prmpt a = (Inr params, w2)"
    and "backend rt params (getField (cellAt (store w2) a) ''timeout'') = Throws t"
  shows "generateWithOpenAI rt w prmpt a
           = (Inl (catchBlock (cellAt (store w2) a) t), w2 \<lparr> calls := Suc (calls w2) \<rparr>)
     \<and> (\<forall>e. t = Typed e \<longrightarrow> catchBlock (cellAt (store w2) a) t = Typed e)
     \<and> (\<forall>f. t = Foreign f \<and> errName f = Some ''AbortError'' \<longrightarrow>
           (\<exists>e. catchBlock (cellAt (store w2) a) t = Typed e
              \<and> name e = ''TimeoutError'' \<and> statusCode e = Num 408 \<and> provider e = Some OpenAI
              \<and> code e = Some ''TIMEOUT''
              \<and> (nullish (getField (cellAt (store w2) a) ''timeout'') \<longrightarrow>
                    message e = ''Request to openai timed out after 90000ms'')
              \<and> (\<forall>n. getField (cellAt (store w2) a) ''timeout'' = VNum n \<and> isNumber n \<longrightarrow>
                    message e = ''Request to openai timed out after '' @ numberToString n @ ''ms'')
              \<and> (\<forall>i. getField (cellAt (store w2) a) ''timeout'' = VNum (Num i)
                       \<and> 0 \<le> i \<and> i \<le> 2 ^ 53 \<longrightarrow>
                    message e = ''Request to openai timed out after '' @ showNat (nat i) @ ''ms'')))
     \<and> (\<forall>f. t = Foreign f \<and> errName f \<noteq> Some ''AbortError'' \<longrightarrow>
           (\<exists>e. catchBlock (cellAt (store w2) a) t = Typed e
              \<and> name e = ''LLMError''
              \<and> message e = (case errMessage f of
                                Some m \<Rightarrow> if m \<noteq> [] then m else ''OpenAI generation failed''
                              | None \<Rightarrow> ''OpenAI generation failed'')
              \<and> statusCode e = (case errStatus f of
                                   Some st \<Rightarrow> if st = NaN \<or> st = Num 0 then Num 500 else st
                                 | None \<Rightarrow> Num 500)
              \<and> provider e = Some OpenAI
              \<and> originalError e = Some (ErrorObject f)))
     \<and> (\<forall>p. t = Primitive p \<and> p \<noteq> PUndefined \<and> p \<noteq> PNull \<longrightarrow>
           (\<exists>e. catchBlock (cellAt (store w2) a) t = Typed e
              \<and> name e = ''LLMError'' \<and> message e = ''OpenAI generation failed''
              \<and> statusCode e = Num 500 \<and> provider e = Some OpenAI
              \<and> originalError e = Some (PrimitiveValue p)))
     \<and> (t = Primitive PUndefined \<longrightarrow>
           catchBlock (cellAt (store w2) a) t
             = typeError ''Cannot read properties of undefined (reading 'name')'')
     \<and> (t = Primitive PNull \<longrightarrow>
           catchBlock (cellAt (store w2) a) t
             = typeError ''Cannot read properties of null (reading 'name')'')"
proof -
  let ?cfg = "cellAt (store w2) a"
  have run: "generateWithOpenAI rt w prmpt a
           = (Inl (catchBlock ?cfg t), w2 \<lparr> calls := Suc (calls w2) \<rparr>)"
    using assms by (simp add: generateWithOpenAI_def tryBlock_def)
  have typed: "\<forall>e. t = Typed e \<longrightarrow> catchBlock ?cfg t = Typed e"
    by (simp add: catchBlock_typed)
  have abort: "\<forall>f. t = Foreign f \<and> errName f = Some ''AbortError'' \<longrightarrow>
           (\<exists>e. catchBlock ?cfg t = Typed e
              \<and> name e = ''TimeoutError'' \<and> statusCode e = Num 408 \<and> provider e = Some OpenAI
              \<and> code e = Some ''TIMEOUT''
              \<and> (nullish (getField ?cfg ''timeout'') \<longrightarrow>
                    message e = ''Request to openai timed out after 90000ms'')
              \<and> (\<forall>n. getField ?cfg ''timeout'' = VNum n \<and> isNumber n \<longrightarrow>
                    message e = ''Request to openai timed out after '' @ numberToString n @ ''ms'')
              \<and> (\<forall>i. getField ?cfg ''timeout'' = VNum (Num i) \<and> 0 \<le> i \<and> i \<le> 2 ^ 53 \<longrightarrow>
                    message e = ''Request to openai timed out after '' @ showNat (nat i) @ ''ms''))"
    using showNat_90000 numberToString_safe
    by (auto simp: catchBlock_abort TimeoutError_fields)
  have other: "\<forall>f. t = Foreign f \<and> errName f \<noteq> Some ''AbortError'' \<longrightarrow>
           (\<exists>e. catchBlock ?cfg t = Typed e
              \<and> name e = ''LLMError''
              \<and> message e = (case errMessage f of
                                Some m \<Rightarrow> if m \<noteq> [] then m else ''OpenAI generation failed''
                              | None \<Rightarrow> ''OpenAI generation failed'')
              \<and> statusCode e = (case errStatus f of
                                   Some st \<Rightarrow> if st = NaN \<or> st = Num 0 then Num 500 else st
                                 | None \<Rightarrow> Num 500)
              \<and> provider e = Some OpenAI
              \<and> originalError e = Some (ErrorObject f))"
    by (auto simp: catchBlock_other)
  have prim: "\<forall>p. t = Primitive p \<and> p \<noteq> PUndefined \<and> p \<noteq> PNull \<longrightarrow>
           (\<exists>e. catchBlock ?cfg t = Typed e
              \<and> name e = ''LLMError'' \<and> message e = ''OpenAI generation failed''
              \<and> statusCode e = Num 500 \<and> provider e = Some OpenAI
              \<and> originalError e = Some (PrimitiveValue p))"
    by (auto simp: catchBlock_primitive)
  have undef: "t = Primitive PUndefined \<longrightarrow>
           catchBlock ?cfg t = typeError ''Cannot read properties of undefined (reading 'name')''"
    by (simp add: catchBlock_nullish)
  have null: "t = Primitive PNull \<longrightarrow>
           catchBlock ?cfg t = typeError ''Cannot read properties of null (reading 'name')''"
    by (simp add: catchBlock_nullish)
  show ?thesis by (intro conjI) (rule run typed abort other prim undef null)+
qed

theorem backend_failure_witness:
  "buildRequest (exampleWorld \<lparr> store := dispatcherStore \<rparr>) (PromptText ''hi'') 4
     = (Inr exampleRequest, preparedWorld)
   \<and> generateWithOpenAI (exampleRuntime (Throws (Typed (APIKeyError OpenAI))) [] None)
         (exampleWorld \<lparr> store := dispatcherStore \<rparr>) (PromptText ''hi'') 4
       = (Inl (Typed (APIKeyError OpenAI)), preparedWorld \<lparr> calls := Suc (calls preparedWorld) \<rparr>)
   \<and> errName abortError = Some ''AbortError''
   \<and> buildRequest directWorld (PromptText ''hi'') 0 = (Inr directRequest, directPrepared)
   \<and> nullish (getField (cellAt (store directPrepared) 0) ''timeout'')
   \<and> (\<exists>e. generateWithOpenAI (exampleRuntime (Throws (Foreign abortError)) [] None)
              directWorld (PromptText ''hi'') 0
            = (Inl (Typed e), directPrepared \<lparr> calls := Suc (calls directPrepared) \<rparr>)
          \<and> name e = ''TimeoutError'' \<and> statusCode e = Num 408 \<and> provider e = Some OpenAI
          \<and> message e = ''Request to openai timed out after 90000ms'')
   \<and> getField (cellAt (store preparedWorld) 4) ''timeout'' = VNum (Num 90000)
   \<and> isNumber (Num 90000)
   \<and> (\<exists>e. generateWithOpenAI (exampleRuntime (Throws (Foreign abortError)) [] None)
              (exampleWorld \<lparr> store := dispatcherStore \<rparr>) (PromptText ''hi'') 4
            = (Inl (Typed e), preparedWorld \<lparr> calls := Suc (calls preparedWorld) \<rparr>)
          \<and> name e = ''TimeoutError'' \<and> statusCode e = Num 408 \<and> provider e = Some OpenAI
          \<and> message e = ''Request to openai timed out after '' @ numberToString (Num 90000) @ ''ms''
          \<and> message e = ''Request to openai timed out after 90000ms'')
   \<and> errName rateLimitError \<noteq> Some ''AbortError''
   \<and> (\<exists>e. generateWithOpenAI (exampleRuntime (Throws (Foreign rateLimitError)) [] None)
              (exampleWorld \<lparr> store := dispatcherStore \<rparr>) (PromptText ''hi'') 4
            = (Inl (Typed e), preparedWorld \<lparr> calls := Suc (calls preparedWorld) \<rparr>)
          \<and> name e = ''LLMError'' \<and> statusCode e = Num 429 \<and> provider e = Some OpenAI
          \<and> message e = ''Rate limit reached''
          \<and> originalError e = Some (ErrorObject rateLimitError))
   \<and> (\<exists>e. generateWithOpenAI (exampleRuntime (Throws (Primitive (PString ''boom''))) [] None)
              (exampleWorld \<lparr> store := dispatcherStore \<rparr>) (PromptText ''hi'') 4
            = (Inl (Typed e), preparedWorld \<lparr> calls := Suc (calls preparedWorld) \<rparr>)
          \<and> name e = ''LLMError'' \<and> statusCode e = Num 500 \<and> provider e = Some OpenAI
          \<and> message e = ''OpenAI generation failed''
          \<and> originalError e = Some (PrimitiveValue (PString ''boom'')))
   \<and> generateWithOpenAI (exampleRuntime (Throws (Primitive PUndefined)) [] None)
         (exampleWorld \<lparr> store := dispatcherStore \<rparr>) (PromptText ''hi'') 4
       = (Inl (typeError ''Cannot read properties of undefined (reading 'name')''),
          preparedWorld \<lparr> calls := Suc (calls preparedWorld) \<rparr>)
   \<and> generateWithOpenAI (exampleRuntime (Throws (Primitive PNull)) [] None)
         (exampleWorld \<lparr> store := dispatcherStore \<rparr>) (PromptText ''hi'') 4
       = (Inl (typeError ''Cannot read properties of null (reading 'name')''),
          preparedWorld \<lparr> calls := Suc (calls preparedWorld) \<rparr>)"
proof -
  have k: "\<And>t. backend (exampleRuntime (Throws t) [] None) exampleRequest
              (getField (cellAt (store preparedWorld) 4) ''timeout'') = Throws t"
    by (simp add: exampleRuntime_def)
  note T = backend_failure_normalised [OF example_buildRequest k]
  have n1: "errName abortError = Some ''AbortError''" by (simp add: abortError_def)
  have n2: "errName rateLimitError \<noteq> Some ''AbortError''" by (simp add: rateLimitError_def)
  have n3: "nullish (getField (cellAt (store directPrepared) 0) ''timeout'')"
    by code_simp
  have n4: "isNumber (Num 90000)"
    by (simp add: roundToNumber_def bitLength.simps)
  have db: "buildRequest directWorld (PromptText ''hi'') 0 = (Inr directRequest, directPrepared)"
    by code_simp
  have dk: "backend (exampleRuntime (Throws (Foreign abortError)) [] None) directRequest
              (getField (cellAt (store directPrepared) 0) ''timeout'') = Throws (Foreign abortError)"
    by (simp add: exampleRuntime_def)
  note D = backend_failure_normalised [OF db dk]
  have unset: "\<exists>e. generateWithOpenAI (exampleRuntime (Throws (Foreign abortError)) [] None)
              directWorld (PromptText ''hi'') 0
            = (Inl (Typed e), directPrepared \<lparr> calls := Suc (calls directPrepared) \<rparr>)
          \<and> name e = ''TimeoutError'' \<and> statusCode e = Num 408 \<and> provider e = Some OpenAI
          \<and> message e = ''Request to openai timed out after 90000ms''"
    using D [THEN conjunct1]
      D [THEN conjunct2, THEN conjunct2, THEN conjunct1, rule_format, of abortError] n1 n3
    by auto
  have typed: "generateWithOpenAI (exampleRuntime (Throws (Typed (APIKeyError OpenAI))) [] None)
         (exampleWorld \<lparr> store := dispatcherStore \<rparr>) (PromptText ''hi'') 4
       = (Inl (Typed (APIKeyError OpenAI)), preparedWorld \<lparr> calls := Suc (calls preparedWorld) \<rparr>)"
    using T [of "Typed (APIKeyError OpenAI)", THEN conjunct1]
      T [of "Typed (APIKeyError OpenAI)", THEN conjunct2, THEN conjunct1]
    by simp
  have abort: "\<exists>e. generateWithOpenAI (exampleRuntime (Throws (Foreign abortError)) [] None)
              (exampleWorld \<lparr> store := dispatcherStore \<rparr>) (PromptText ''hi'') 4
            = (Inl (Typed e), preparedWorld \<lparr> calls := Suc (calls preparedWorld) \<rparr>)
          \<and> name e = ''TimeoutError'' \<and> statusCode e = Num 408 \<and> provider e = Some OpenAI
          \<and> message e = ''Request to openai timed out after '' @ numberToString (Num 90000) @ ''ms''
          \<and> message e = ''Request to openai timed out after 90000ms''"
    using T [of "Foreign abortError", THEN conjunct1]
      T [of "Foreign abortError", THEN conjunct2, THEN conjunct2, THEN conjunct1, rule_format,
         of abortError] n1 n4 showNat_90000
    by (auto simp: example_timeout)
  have other: "\<exists>e. generateWithOpenAI (exampleRuntime (Throws (Foreign rateLimitError)) [] None)
              (exampleWorld \<lparr> store := dispatcherStore \<rparr>) (PromptText ''hi'') 4
            = (Inl (Typed e), preparedWorld \<lparr> calls := Suc (calls preparedWorld) \<rparr>)
          \<and> name e = ''LLMError'' \<and> statusCode e = Num 429 \<and> provider e = Some OpenAI
          \<and> message e = ''Rate limit reached''
          \<and> originalError e = Some (ErrorObject rateLimitError)"
    using T [of "Foreign rateLimitError", THEN conjunct1]
      T [of "Foreign rateLimitError", THEN conjunct2, THEN conjunct2, THEN conjunct2,
         THEN conjunct1, rule_format, of rateLimitError] n2
    by (auto simp: rateLimitError_def)
  have prim: "\<exists>e. generateWithOpenAI (exampleRuntime (Throws (Primitive (PString ''boom''))) [] None)
              (exampleWorld \<lparr> store := dispatcherStore \<rparr>) (PromptText ''hi'') 4
            = (Inl (Typed e), preparedWorld \<lparr> calls := Suc (calls preparedWorld) \<rparr>)
          \<and> name e = ''LLMError'' \<and> statusCode e = Num 500 \<and> provider e = Some OpenAI
          \<and> message e = ''OpenAI generation failed''
          \<and> originalError e = Some (PrimitiveValue (PString ''boom''))"
    using T [of "Primitive (PString ''boom'')", THEN conjunct1]
      T [of "Primitive (PString ''boom'')", THEN conjunct2, THEN conjunct2, THEN conjunct2,
         THEN conjunct2, THEN conjunct1, rule_format, of "PString ''boom''"]
    by auto
  have undef: "generateWithOpenAI (exampleRuntime (Throws (Primitive PUndefined)) [] None)
         (exampleWorld \<lparr> store := dispatcherStore \<rparr>) (PromptText ''hi'') 4
       = (Inl (typeError ''Cannot read properties of undefined (reading 'name')''),
          preparedWorld \<lparr> calls := Suc (calls preparedWorld) \<rparr>)"
    using T [of "Primitive PUndefined", THEN conjunct1]
      T [of "Primitive PUndefined", THEN conjunct2, THEN conjunct2, THEN conjunct2,
         THEN conjunct2, THEN conjunct2, THEN conjunct1]
    by simp
  have null: "generateWithOpenAI (exampleRuntime (Throws (Primitive PNull)) [] None)
         (exampleWorld \<lparr> store := dispatcherStore \<rparr>) (PromptText ''hi'') 4
       = (Inl (typeError ''Cannot read properties of null (reading 'name')''),
          preparedWorld \<lparr> calls := Suc (calls preparedWorld) \<rparr>)"
    using T [of "Primitive PNull", THEN conjunct1]
      T [of "Primitive PNull", THEN conjunct2, THEN conjunct2, THEN conjunct2,
         THEN conjunct2, THEN conjunct2, THEN conjunct2]
    by simp
  show ?thesis
    by (intro conjI)
       (rule example_buildRequest typed n1 n2 n3 n4 db unset example_timeout abort other prim
             undef null)+
qed

text \<open>
  The claim as stated fails at three thrown values. An error whose status is present and
  0 is wrapped with status 500, not with "the underlying status code if present". The
  error the OpenAI client raises for a request that exceeded its timeout carries the name
  \<open>Error\<close>, not \<open>AbortError\<close>: it is wrapped as a generic \<open>LLMError\<close> with status 500,
  not as a \<open>TimeoutError\<close>. A thrown \<^verbatim>\<open>null\<close> is not normalised at all: a \<open>TypeError\<close>
  outside the taxonomy leaves the function.
\<close>

theorem backend_failure_counterexample:
  "generateWithOpenAI (exampleRuntime (Throws (Foreign statusZeroError)) [] None)
      (exampleWorld \<lparr> store := dispatcherStore \<rparr>) (PromptText ''hi'') 4
    = (Inl (Typed \<lparr> name = ''LLMError'', message = ''Connection error.'', statusCode = Num 500,
                     provider = Some OpenAI, code = None,
                     originalError = Some (ErrorObject statusZeroError) \<rparr>),
       preparedWorld \<lparr> calls := 1 \<rparr>)
   \<and> errStatus statusZeroError = Some (Num 0)
   \<and> generateWithOpenAI (exampleRuntime (Throws (Foreign timeoutExceeded)) [] None)
        (exampleWorld \<lparr> store := dispatcherStore \<rparr>) (PromptText ''hi'') 4
      = (Inl (Typed \<lparr> name = ''LLMError'', message = ''Request timed out.'', statusCode = Num 500,
                       provider = Some OpenAI, code = None,
                       originalError = Some (ErrorObject timeoutExceeded) \<rparr>),
         preparedWorld \<lparr> calls := 1 \<rparr>)
   \<and> generateWithOpenAI (exampleRuntime (Throws (Primitive PNull)) [] None)
        (exampleWorld \<lparr> store := dispatcherStore \<rparr>) (PromptText ''hi'') 4
      = (Inl (Foreign \<lparr> errName = Some ''TypeError'', errStatus = None,
                         errMessage = Some ''Cannot read properties of null (reading 'name')'' \<rparr>),
         preparedWorld \<lparr> calls := 1 \<rparr>)"
  by code_simp

text \<open>
  Claim C8. For a dispatcher whose resolved provider is \<open>anthropic\<close> or \<open>gemini\<close>,
  \<open>generate\<close> fails with an \<open>UnsupportedProviderError\<close> with status 400 whose message
  carries the provider's string form. The world is returned as it was, for every runtime:
  no client was acquired, no object of the store was touched or added, and no request
  reached the backend.
\<close>

theorem unsupported_provider_fails_first:
  assumes "p = Anthropic \<or> p = Gemini"
    and "getField (cellAt (store w) (config llm)) ''provider'' = VStr (providerString p)"
  shows "\<exists>e. LLM_generate rt w llm prmpt = (Inl (Typed e), w)
           \<and> name e = ''UnsupportedProviderError''
           \<and> statusCode e = Num 400
           \<and> code e = Some ''UNSUPPORTED_PROVIDER''
           \<and> message e = ''Unsupported LLM provider: '' @ providerString p"
  using assms
  by (auto simp: LLM_generate_def UnsupportedProviderError_def newLLMError_def)


theorem unsupported_provider_witness:
  "getField (cellAt (store (idleWorld (providerStore ''anthropic''))) (config \<lparr> config = 0 \<rparr>)) ''provider''
     = VStr (providerString Anthropic)
   \<and> getField (cellAt (store (idleWorld (providerStore ''gemini''))) (config \<lparr> config = 0 \<rparr>)) ''provider''
     = VStr (providerString Gemini)
   \<and> (\<exists>e. LLM_generate (exampleRuntime (textReply ''4'') [] None) (idleWorld (providerStore ''anthropic''))
              \<lparr> config = 0 \<rparr> (PromptText ''hi'')
            = (Inl (Typed e), idleWorld (providerStore ''anthropic''))
          \<and> name e = ''UnsupportedProviderError'' \<and> statusCode e = Num 400
          \<and> code e = Some ''UNSUPPORTED_PROVIDER''
          \<and> message e = ''Unsupported LLM provider: anthropic'')
   \<and> (\<exists>e. LLM_generate (exampleRuntime (textReply ''4'') [] None) (idleWorld (providerStore ''gemini''))
              \<lparr> config = 0 \<rparr> (PromptText ''hi'')
            = (Inl (Typed e), idleWorld (providerStore ''gemini''))
          \<and> name e = ''UnsupportedProviderError'' \<and> statusCode e = Num 400
          \<and> code e = Some ''UNSUPPORTED_PROVIDER''
          \<and> message e = ''Unsupported LLM provider: gemini'')"
proof -
  have a: "getField (cellAt (store (idleWorld (providerStore ''anthropic''))) (config \<lparr> config = 0 \<rparr>))
             ''provider'' = VStr (providerString Anthropic)"
    by code_simp
  have g: "getField (cellAt (store (idleWorld (providerStore ''gemini''))) (config \<lparr> config = 0 \<rparr>))
             ''provider'' = VStr (providerString Gemini)"
    by code_simp
  have pa: "Anthropic = Anthropic \<or> Anthropic = Gemini" by simp
  have pg: "Gemini = Anthropic \<or> Gemini = Gemini" by simp
  note ra = unsupported_provider_fails_first [OF pa a, of "exampleRuntime (textReply ''4'') [] None"
              "PromptText ''hi''", simplified providerString.simps append.simps]
  note rg = unsupported_provider_fails_first [OF pg g, of "exampleRuntime (textReply ''4'') [] None"
              "PromptText ''hi''", simplified providerString.simps append.simps]
  show ?thesis by (intro conjI) (rule a g ra rg)+
qed

lemma generateWithOpenAI_success:
  assumes "buildRequest w prmpt a = (Inr params, w2)"
    and "backend rt params (getField (cellAt (store w2) a) ''timeout'') = Completes c"
    and "extractContent c = Inr text"
  shows "\<exists>resp. generateWithOpenAI rt w prmpt a = (Inr resp, w2 \<lparr> calls := Suc (calls w2) \<rparr>)
           \<and> content resp = text
           \<and> responseProvider resp = OpenAI
           \<and> structuredOutput resp =
                (if truthy (getField (cellAt (store w2) a) ''schema'') \<and> text \<noteq> []
                 then parseText rt text else None)"
  using assms by (simp add: generateWithOpenAI_def tryBlock_def)

lemma generateStructured_unfold:
  assumes "createLLM (store w @ [generateStructuredLiteral (store w) mdl schema options])
             (VRef (length (store w))) = Inr (llm, h2)"
    and "LLM_generate rt (w \<lparr> store := h2 \<rparr>) llm prmpt = (Inr resp, w')"
  shows "generateStructured rt w mdl prmpt schema options
           = (Inr (orEmptyObject (structuredOutput resp)), w')"
  using assms by (simp add: generateStructured_def alloc_def)

text \<open>
  Claim C7, as the code has it. Let a schema be requested and the backend answer with a
  text (the empty text is not valid JSON). Then the call succeeds; the response carries
  the text and, as structured output, what \<^verbatim>\<open>JSON.parse\<close> makes of the text, which is
  nothing when the text is not valid JSON. \<open>generateStructured\<close> returns the empty
  object when the text is not valid JSON, the parsed value when the text is valid JSON
  other than \<open>null\<close>, and the empty object, not the parsed value, when the text is the
  JSON text \<open>null\<close>.
\<close>

theorem structured_output_parse:
  assumes lit: "createLLM (store w @ [generateStructuredLiteral (store w) mdl schema options])
                  (VRef (length (store w))) = Inr (llm, h2)"
    and prov: "getField (cellAt h2 (config llm)) ''provider'' = VStr ''openai''"
    and build: "buildRequest (w \<lparr> store := h2 \<rparr>) prmpt (config llm) = (Inr params, w2)"
    and bck: "backend rt params (getField (cellAt (store w2) (config llm)) ''timeout'') = Completes c"
    and ext: "extractContent c = Inr text"
    and sch: "truthy (getField (cellAt (store w2) (config llm)) ''schema'')"
    and empty: "parseText rt [] = None"
  shows "\<exists>resp. LLM_generate rt (w \<lparr> store := h2 \<rparr>) llm prmpt
                  = (Inr resp, w2 \<lparr> calls := Suc (calls w2) \<rparr>)
           \<and> content resp = text
           \<and> structuredOutput resp = parseText rt text
           \<and> generateStructured rt w mdl prmpt schema options
                = (Inr (case parseText rt text of
                          None \<Rightarrow> JObj []
                        | Some JNull \<Rightarrow> JObj []
                        | Some j \<Rightarrow> j),
                   w2 \<lparr> calls := Suc (calls w2) \<rparr>)"
proof -
  obtain resp where r: "generateWithOpenAI rt (w \<lparr> store := h2 \<rparr>) prmpt (config llm)
         = (Inr resp, w2 \<lparr> calls := Suc (calls w2) \<rparr>)"
      "content resp = text"
      "structuredOutput resp =
         (if truthy (getField (cellAt (store w2) (config llm)) ''schema'') \<and> text \<noteq> []
          then parseText rt text else None)"
    using generateWithOpenAI_success [OF build bck ext] by blast
  have so: "structuredOutput resp = parseText rt text"
    using r(3) sch empty by (cases "text = []") simp_all
  have g: "LLM_generate rt (w \<lparr> store := h2 \<rparr>) llm prmpt
             = (Inr resp, w2 \<lparr> calls := Suc (calls w2) \<rparr>)"
    using r(1) prov by (simp add: LLM_generate_def)
  have "generateStructured rt w mdl prmpt schema options
          = (Inr (orEmptyObject (structuredOutput resp)), w2 \<lparr> calls := Suc (calls w2) \<rparr>)"
    by (rule generateStructured_unfold [OF lit g])
  then show ?thesis using g r(2) so by (auto simp: orEmptyObject_def)
qed


theorem structured_output_witness:
  "createLLM (store exampleWorld @ [generateStructuredLiteral (store exampleWorld) ''gpt-4'' (VRef 0) VUndef])
     (VRef (length (store exampleWorld))) = Inr (\<lparr> config = 4 \<rparr>, dispatcherStore)
   \<and> getField (cellAt dispatcherStore (config \<lparr> config = 4 \<rparr>)) ''provider'' = VStr ''openai''
   \<and> buildRequest (exampleWorld \<lparr> store := dispatcherStore \<rparr>) (PromptText ''hi'') 4
        = (Inr exampleRequest, preparedWorld)
   \<and> truthy (getField (cellAt (store preparedWorld) 4) ''schema'')
   \<and> extractContent \<lparr> outputItems = [Message [OutputText ''{'']], completionUsage = None \<rparr> = Inr ''{''
   \<and> parseText (exampleRuntime (textReply ''{'') [] None) ''{'' = None
   \<and> (\<exists>resp. LLM_generate (exampleRuntime (textReply ''{'') [] None)
                 (exampleWorld \<lparr> store := dispatcherStore \<rparr>) \<lparr> config = 4 \<rparr> (PromptText ''hi'')
               = (Inr resp, preparedWorld \<lparr> calls := Suc (calls preparedWorld) \<rparr>)
             \<and> content resp = ''{'' \<and> structuredOutput resp = None)
   \<and> generateStructured (exampleRuntime (textReply ''{'') [] None) exampleWorld ''gpt-4''
         (PromptText ''hi'') (VRef 0) VUndef
       = (Inr (JObj []), preparedWorld \<lparr> calls := Suc (calls preparedWorld) \<rparr>)
   \<and> parseText (exampleRuntime (textReply ''[1, true]'') ''[1, true]'' (Some (JArr [JNum 1, JBool True])))
         ''[1, true]'' = Some (JArr [JNum 1, JBool True])
   \<and> generateStructured
         (exampleRuntime (textReply ''[1, true]'') ''[1, true]'' (Some (JArr [JNum 1, JBool True])))
         exampleWorld ''gpt-4'' (PromptText ''hi'') (VRef 0) VUndef
       = (Inr (JArr [JNum 1, JBool True]), preparedWorld \<lparr> calls := Suc (calls preparedWorld) \<rparr>)"
proof -
  let ?bad = "exampleRuntime (textReply ''{'') [] None"
  let ?good = "exampleRuntime (textReply ''[1, true]'') ''[1, true]'' (Some (JArr [JNum 1, JBool True]))"
  have prov: "getField (cellAt dispatcherStore (config \<lparr> config = 4 \<rparr>)) ''provider'' = VStr ''openai''"
    using example_provider by simp
  have build: "buildRequest (exampleWorld \<lparr> store := dispatcherStore \<rparr>) (PromptText ''hi'')
                 (config \<lparr> config = 4 \<rparr>) = (Inr exampleRequest, preparedWorld)"
    using example_buildRequest by simp
  have sch: "truthy (getField (cellAt (store preparedWorld) (config \<lparr> config = 4 \<rparr>)) ''schema'')"
    using example_schema by simp
  have kb: "backend ?bad exampleRequest
              (getField (cellAt (store preparedWorld) (config \<lparr> config = 4 \<rparr>)) ''timeout'')
            = Completes \<lparr> outputItems = [Message [OutputText ''{'']], completionUsage = None \<rparr>"
    by (simp add: exampleRuntime_def textReply_def)
  have kg: "backend ?good exampleRequest
              (getField (cellAt (store preparedWorld) (config \<lparr> config = 4 \<rparr>)) ''timeout'')
            = Completes \<lparr> outputItems = [Message [OutputText ''[1, true]'']], completionUsage = None \<rparr>"
    by (simp add: exampleRuntime_def textReply_def)
  have xb: "extractContent \<lparr> outputItems = [Message [OutputText ''{'']], completionUsage = None \<rparr>
              = Inr ''{''"
    by (simp add: extractContent_def)
  have xg: "extractContent \<lparr> outputItems = [Message [OutputText ''[1, true]'']], completionUsage = None \<rparr>
              = Inr ''[1, true]''"
    by (simp add: extractContent_def)
  have eb: "parseText ?bad [] = None" by (simp add: exampleRuntime_def)
  have eg: "parseText ?good [] = None" by (simp add: exampleRuntime_def)
  have pb: "parseText ?bad ''{'' = None" by (simp add: exampleRuntime_def)
  have pg: "parseText ?good ''[1, true]'' = Some (JArr [JNum 1, JBool True])"
    by (simp add: exampleRuntime_def)
  note B = structured_output_parse [OF example_createLLM prov build kb xb sch eb, unfolded pb]
  note G = structured_output_parse [OF example_createLLM prov build kg xg sch eg, unfolded pg]
  have b1: "\<exists>resp. LLM_generate ?bad (exampleWorld \<lparr> store := dispatcherStore \<rparr>) \<lparr> config = 4 \<rparr>
                      (PromptText ''hi'')
               = (Inr resp, preparedWorld \<lparr> calls := Suc (calls preparedWorld) \<rparr>)
             \<and> content resp = ''{'' \<and> structuredOutput resp = None"
    using B by auto
  have b2: "generateStructured ?bad exampleWorld ''gpt-4'' (PromptText ''hi'') (VRef 0) VUndef
       = (Inr (JObj []), preparedWorld \<lparr> calls := Suc (calls preparedWorld) \<rparr>)"
    using B by auto
  have g2: "generateStructured ?good exampleWorld ''gpt-4'' (PromptText ''hi'') (VRef 0) VUndef
       = (Inr (JArr [JNum 1, JBool True]), preparedWorld \<lparr> calls := Suc (calls preparedWorld) \<rparr>)"
    using G by auto
  show ?thesis
    by (intro conjI) (rule example_createLLM prov example_buildRequest example_schema xb pb b1 b2 pg g2)+
qed

text \<open>
  The claim as stated, "when the extracted text is valid JSON, \<open>generateStructured\<close>
  returns the parsed object", fails for the valid JSON text \<open>null\<close>: the parsed value is
  \<open>null\<close>, the value returned is the empty object.
\<close>

theorem null_text_counterexample:
  "parseText (exampleRuntime (textReply ''null'') ''null'' (Some JNull)) ''null'' = Some JNull
   \<and> generateStructured (exampleRuntime (textReply ''null'') ''null'' (Some JNull)) exampleWorld ''gpt-4''
         (PromptText ''hi'') (VRef 0) VUndef
       = (Inr (JObj []), preparedWorld \<lparr> calls := 1 \<rparr>)"
  by code_simp

section \<open>Schema normalisation: the pass on a parsed copy\<close>

subsection \<open>The layout of a parsed tree\<close>

lemma parseAt_layout:
  "fst (parseAt b j) = rootAt b j \<and> length (snd (parseAt b j)) = ncells j"
  "length (fst (parseListAt b js)) = length js
     \<and> length (snd (parseListAt b js)) = sum_list (map ncells js)"
  "map fst (fst (parsePropsAt b kjs)) = map fst kjs
     \<and> length (snd (parsePropsAt b kjs)) = sum_list (map (\<lambda>kj. ncells (snd kj)) kjs)"
  by (induction b j and b js and b kjs rule: parseAt_parseListAt_parsePropsAt.induct)
     (auto split: prod.splits)

lemma parseProps_as_list:
  "parsePropsAt b kjs =
     (zip (map fst kjs) (fst (parseListAt b (map snd kjs))), snd (parseListAt b (map snd kjs)))"
  by (induction kjs arbitrary: b) (auto split: prod.splits)

lemma parseListAt_append:
  "parseListAt b (xs @ ys) =
     (fst (parseListAt b xs) @ fst (parseListAt (b + sum_list (map ncells xs)) ys),
      snd (parseListAt b xs) @ snd (parseListAt (b + sum_list (map ncells xs)) ys))"
proof (induction xs arbitrary: b)
  case Nil
  show ?case by simp
next
  case (Cons x xs)
  show ?case
    using Cons.IH [of "b + ncells x"] parseAt_layout(1) [of b x]
    by (auto split: prod.splits simp: add.assoc)
qed

lemma parseListAt_Cons:
  "parseListAt b (j # js) =
     (rootAt b j # fst (parseListAt (b + ncells j) js),
      snd (parseAt b j) @ snd (parseListAt (b + ncells j) js))"
  using parseAt_layout(1) [of b j] by (auto split: prod.splits)

lemma parseAt_JArr:
  "parseAt b (JArr js) =
     (VRef (b + sum_list (map ncells js)),
      snd (parseListAt b js) @ [Arr (fst (parseListAt b js))])"
  using parseAt_layout(2) [of b js] by (auto split: prod.splits)

lemma parseAt_JObj:
  "parseAt b (JObj kjs) =
     (VRef (b + sum_list (map ncells (map snd kjs))),
      snd (parseListAt b (map snd kjs))
        @ [Obj (zip (map fst kjs) (fst (parseListAt b (map snd kjs))))])"
  using parseAt_layout(2) [of b "map snd kjs"]
  by (auto split: prod.splits simp: parseProps_as_list comp_def)


lemma update_absent: "k \<notin> fst ` set al \<Longrightarrow> AList.update k v al = al @ [(k, v)]"
  by (induction al) auto

lemma update_split_ex:
  "map_of al k = Some v \<Longrightarrow> \<exists>xs ys. al = xs @ (k, v) # ys \<and> k \<notin> fst ` set xs"
proof (induction al)
  case Nil
  then show ?case by simp
next
  case (Cons p al)
  show ?case
  proof (cases "fst p = k")
    case True
    with Cons.prems have "p # al = [] @ (k, v) # al \<and> k \<notin> fst ` set []" by (cases p) simp
    then show ?thesis by (intro exI)
  next
    case False
    with Cons.prems have "map_of al k = Some v" by (cases p) simp
    from Cons.IH [OF this] obtain xs where "\<exists>ys. al = xs @ (k, v) # ys \<and> k \<notin> fst ` set xs" ..
    then obtain ys where "al = xs @ (k, v) # ys \<and> k \<notin> fst ` set xs" ..
    with False have "p # al = (p # xs) @ (k, v) # ys \<and> k \<notin> fst ` set (p # xs)" by auto
    then show ?thesis by (intro exI)
  qed
qed

lemma update_split:
  assumes "map_of al k = Some v"
  obtains xs ys where "al = xs @ (k, v) # ys" and "k \<notin> fst ` set xs"
proof -
  from update_split_ex [OF assms] obtain xs where "\<exists>ys. al = xs @ (k, v) # ys \<and> k \<notin> fst ` set xs" ..
  then obtain ys where "al = xs @ (k, v) # ys \<and> k \<notin> fst ` set xs" ..
  then show thesis using that by simp
qed

lemma update_at: "k \<notin> fst ` set xs \<Longrightarrow> AList.update k v' (xs @ (k, v) # ys) = xs @ (k, v') # ys"
  by (induction xs) auto

lemma map_of_rebind:
  "map_of (rebind k jo al) k' = (if k' = k \<and> jo \<noteq> None then jo else map_of al k')"
  by (cases jo) (simp_all add: update_conv')

lemma keys_rebind:
  "map_of al k \<noteq> None \<Longrightarrow> map fst (rebind k jo al) = map fst al"
proof (cases jo)
  case None
  then show ?thesis by simp
next
  case (Some j)
  assume "map_of al k \<noteq> None"
  then obtain v where "map_of al k = Some v" by blast
  then obtain xs ys where "al = xs @ (k, v) # ys" "k \<notin> fst ` set xs"
    by (rule update_split)
  with Some show ?thesis by (simp add: update_at)
qed

lemma map_of_closeObject: "k \<noteq> ''additionalProperties'' \<Longrightarrow> map_of (closeObject kjs) k = map_of kjs k"
  by (simp add: closeObject_def update_conv')

lemma closeObject_eq:
  "closeObject kjs =
     kjs @ (if map_of kjs ''type'' = Some (JStr ''object'')
               \<and> ''additionalProperties'' \<notin> fst ` set kjs
            then [(''additionalProperties'', JBool False)] else [])"
  by (simp add: closeObject_def update_absent)

lemma sum_rebind:
  assumes "\<And>j'. jo = Some j' \<Longrightarrow> \<exists>j. map_of al k = Some j \<and> f j' = f j"
  shows "sum_list (map (\<lambda>kj. f (snd kj)) (rebind k jo al)) = sum_list (map (\<lambda>kj. (f (snd kj) :: nat)) al)"
proof (cases jo)
  case None
  then show ?thesis by simp
next
  case (Some j')
  with assms obtain j where j: "map_of al k = Some j" "f j' = f j" by blast
  from j(1) obtain xs ys where "al = xs @ (k, j) # ys" "k \<notin> fst ` set xs"
    by (rule update_split)
  with Some j(2) show ?thesis by (simp add: update_at)
qed


lemma ncells_map_processed:
  assumes "\<And>j. j \<in> set js \<Longrightarrow> ncells (f j) = ncells j"
  shows "sum_list (map ncells (map f js)) = sum_list (map ncells js)"
  using assms by (induction js) simp_all

lemma processTree_induct [case_names Obj Other]:
  assumes obj: "\<And>kjs.
      (\<And>k js j. k \<in> {''properties'', ''anyOf'', ''allOf'', ''oneOf''} \<Longrightarrow>
         map_of kjs k = Some (JArr js) \<Longrightarrow> j \<in> set js \<Longrightarrow> P j) \<Longrightarrow>
      (\<And>ps kj. map_of kjs ''properties'' = Some (JObj ps) \<Longrightarrow> kj \<in> set ps \<Longrightarrow> P (snd kj)) \<Longrightarrow>
      (\<And>j. map_of kjs ''items'' = Some j \<Longrightarrow> P j) \<Longrightarrow> P (JObj kjs)"
    and other: "\<And>j. (\<And>kjs. j \<noteq> JObj kjs) \<Longrightarrow> P j"
  shows "P j"
proof (induction j rule: processTree.induct)
  case (1 kjs)
  show ?case
  proof (rule obj)
    fix k js j
    assume "k \<in> {''properties'', ''anyOf'', ''allOf'', ''oneOf''}"
      and "map_of kjs k = Some (JArr js)" and "j \<in> set js"
    then show "P j" using "1.IH"(1,2,3,5) by blast
  next
    fix ps kj
    assume "map_of kjs ''properties'' = Some (JObj ps)" and "kj \<in> set ps"
    then show "P (snd kj)" using "1.IH"(6) by blast
  next
    fix j
    assume "map_of kjs ''items'' = Some j"
    then show "P j" using "1.IH"(4) by blast
  qed
qed (simp_all add: other)

text \<open>The object case of \<open>processTree\<close>, stage by stage.\<close>

lemma processTree_JObj:
  "processTree (JObj kjs) =
     JObj (rebind ''oneOf''
             (case map_of kjs ''oneOf'' of
                Some (JArr js) \<Rightarrow> Some (JArr (map processTree js)) | _ \<Rightarrow> None)
          (rebind ''allOf''
             (case map_of kjs ''allOf'' of
                Some (JArr js) \<Rightarrow> Some (JArr (map processTree js)) | _ \<Rightarrow> None)
          (rebind ''anyOf''
             (case map_of kjs ''anyOf'' of
                Some (JArr js) \<Rightarrow> Some (JArr (map processTree js)) | _ \<Rightarrow> None)
          (rebind ''items''
             (case map_of kjs ''items'' of Some j \<Rightarrow> Some (processTree j) | None \<Rightarrow> None)
          (rebind ''properties''
             (case map_of kjs ''properties'' of
                Some (JObj ps) \<Rightarrow> Some (JObj (map (\<lambda>kj. (fst kj, processTree (snd kj))) ps))
              | Some (JArr js) \<Rightarrow> Some (JArr (map processTree js))
              | _ \<Rightarrow> None)
          (closeObject kjs))))))"
  by simp

lemma processTree_other: "(\<And>kjs. j \<noteq> JObj kjs) \<Longrightarrow> processTree j = j"
  by (cases j) (auto simp del: processTree.simps(1))

lemma ncells_processTree: "ncells (processTree j) = ncells j"
proof (induction j rule: processTree_induct)
  case (Obj kjs)
  let ?f = "\<lambda>kj. ncells (snd kj)"
  let ?p1 = "case map_of kjs ''properties'' of
               Some (JObj ps) \<Rightarrow> Some (JObj (map (\<lambda>kj. (fst kj, processTree (snd kj))) ps))
             | Some (JArr js) \<Rightarrow> Some (JArr (map processTree js))
             | _ \<Rightarrow> None"
  let ?p2 = "case map_of kjs ''items'' of Some j \<Rightarrow> Some (processTree j) | None \<Rightarrow> None"
  let ?p3 = "case map_of kjs ''anyOf'' of
               Some (JArr js) \<Rightarrow> Some (JArr (map processTree js)) | _ \<Rightarrow> None"
  let ?p4 = "case map_of kjs ''allOf'' of
               Some (JArr js) \<Rightarrow> Some (JArr (map processTree js)) | _ \<Rightarrow> None"
  let ?p5 = "case map_of kjs ''oneOf'' of
               Some (JArr js) \<Rightarrow> Some (JArr (map processTree js)) | _ \<Rightarrow> None"
  let ?a0 = "closeObject kjs"
  let ?a1 = "rebind ''properties'' ?p1 ?a0"
  let ?a2 = "rebind ''items'' ?p2 ?a1"
  let ?a3 = "rebind ''anyOf'' ?p3 ?a2"
  let ?a4 = "rebind ''allOf'' ?p4 ?a3"
  let ?a5 = "rebind ''oneOf'' ?p5 ?a4"
  have arr: "ncells (JArr (map processTree js)) = ncells (JArr js)"
    if "map_of kjs k = Some (JArr js)" "k \<in> {''properties'', ''anyOf'', ''allOf'', ''oneOf''}"
    for k js
  proof -
    have "sum_list (map ncells (map processTree js)) = sum_list (map ncells js)"
      using Obj(1) [OF that(2) that(1)] by (rule ncells_map_processed)
    then show ?thesis by simp
  qed
  have obj: "ncells (JObj (map (\<lambda>kj. (fst kj, processTree (snd kj))) ps)) = ncells (JObj ps)"
    if m: "map_of kjs ''properties'' = Some (JObj ps)" for ps
  proof -
    have "map (\<lambda>kj. ncells (snd (fst kj, processTree (snd kj)))) ps
            = map (\<lambda>kj. ncells (snd kj)) ps"
      by (rule map_cong) (simp_all add: Obj(2) [OF m])
    then have "sum_list (map (\<lambda>kj. ncells (snd (fst kj, processTree (snd kj)))) ps)
                 = sum_list (map (\<lambda>kj. ncells (snd kj)) ps)"
      by (rule arg_cong)
    then show ?thesis by (simp add: comp_def)
  qed
  have s0: "sum_list (map ?f ?a0) = sum_list (map ?f kjs)"
    by (simp add: closeObject_eq)
  have s1: "sum_list (map ?f ?a1) = sum_list (map ?f ?a0)"
    by (rule sum_rebind)
       (auto split: option.splits json.splits simp: map_of_closeObject simp del: ncells.simps
             intro: arr obj)
  have s2: "sum_list (map ?f ?a2) = sum_list (map ?f ?a1)"
    by (rule sum_rebind)
       (auto split: option.splits simp: map_of_rebind map_of_closeObject Obj(3))
  have s3: "sum_list (map ?f ?a3) = sum_list (map ?f ?a2)"
    by (rule sum_rebind)
       (auto split: option.splits json.splits simp: map_of_rebind map_of_closeObject
             simp del: ncells.simps intro: arr)
  have s4: "sum_list (map ?f ?a4) = sum_list (map ?f ?a3)"
    by (rule sum_rebind)
       (auto split: option.splits json.splits simp: map_of_rebind map_of_closeObject
             simp del: ncells.simps intro: arr)
  have s5: "sum_list (map ?f ?a5) = sum_list (map ?f ?a4)"
    by (rule sum_rebind)
       (auto split: option.splits json.splits simp: map_of_rebind map_of_closeObject
             simp del: ncells.simps intro: arr)
  show ?case unfolding processTree_JObj using s0 s1 s2 s3 s4 s5 by simp
next
  case (Other j)
  then show ?case by (simp add: processTree_other)
qed

lemma rootAt_processTree: "rootAt b (processTree j) = rootAt b j"
proof (cases j)
  case (JObj kjs)
  have "\<exists>kjs'. processTree (JObj kjs) = JObj kjs'" by simp
  then obtain kjs' where k: "processTree (JObj kjs) = JObj kjs'" ..
  have "ncells (JObj kjs') = ncells (JObj kjs)"
    using ncells_processTree [of "JObj kjs"] unfolding k .
  then show ?thesis unfolding JObj k by simp
qed simp_all

subsection \<open>The loops over the children\<close>

declare parseAt.simps(5,6) [simp del]
declare parseListAt.simps(2) [simp del]
declare parsePropsAt.simps(2) [simp del]
declare ncells_processTree [simp] rootAt_processTree [simp]

lemma cellAt_mid: "cellAt (pre @ X @ c # post) (length pre + length X) = c"
  by (simp add: cellAt_def nth_append)

lemma parseAt_len [simp]: "length (snd (parseAt b j)) = ncells j"
  by (simp add: parseAt_layout(1))

lemma parseListAt_len [simp]: "length (snd (parseListAt b js)) = sum_list (map ncells js)"
  by (simp add: parseAt_layout(2))

lemma parseListAt_vals_len [simp]: "length (fst (parseListAt b js)) = length js"
  by (simp add: parseAt_layout(2))

lemma loop_children:
  assumes ih: "\<And>c pre post. c \<in> set js \<Longrightarrow>
      processSchema n (pre @ snd (parseAt (length pre) c) @ post) (rootAt (length pre) c)
        = Some (pre @ snd (parseAt (length pre) (processTree c)) @ post)"
    and rd: "\<And>i X. i < length js \<Longrightarrow> length X = sum_list (map ncells js) \<Longrightarrow>
      f (pre @ X @ rest) (xs ! i)
        = processSchema n (pre @ X @ rest) (fst (parseListAt (length pre) js) ! i)"
    and len: "length xs = length js"
  shows "forEachE f xs (pre @ snd (parseListAt (length pre) js) @ rest)
           = Some (pre @ snd (parseListAt (length pre) (map processTree js)) @ rest)"
  using assms
proof (induction js arbitrary: pre xs)
  case Nil
  then show ?case by simp
next
  case (Cons c t)
  from Cons.prems(3) obtain x xt where xs: "xs = x # xt" and lt: "length xt = length t"
    by (cases xs) simp_all
  let ?b = "length pre"
  let ?cc = "snd (parseAt ?b c)"
  let ?cc' = "snd (parseAt ?b (processTree c))"
  let ?ct = "snd (parseListAt (?b + ncells c) t)"
  let ?H = "pre @ snd (parseListAt ?b (c # t)) @ rest"
  have lay: "snd (parseListAt ?b (c # t)) = ?cc @ ?ct" by (simp add: parseListAt_Cons)
  have lcc': "length ?cc' = ncells c" by (simp add: parseAt_len ncells_processTree)
  have first: "f ?H x = processSchema n ?H (rootAt ?b c)"
    using Cons.prems(2) [of 0 "snd (parseListAt ?b (c # t))"]
    by (simp add: xs parseListAt_len parseListAt_Cons)
  have H: "?H = pre @ ?cc @ (?ct @ rest)" by (simp add: lay)
  have step: "processSchema n ?H (rootAt ?b c) = Some (pre @ ?cc' @ (?ct @ rest))"
    unfolding H by (rule Cons.prems(1)) simp
  let ?pre' = "pre @ ?cc'"
  have lp: "length ?pre' = ?b + ncells c" by (simp add: lcc')
  have tail: "forEachE f xt (?pre' @ snd (parseListAt (length ?pre') t) @ rest)
                = Some (?pre' @ snd (parseListAt (length ?pre') (map processTree t)) @ rest)"
  proof (rule Cons.IH)
    fix c' pre' post'
    assume "c' \<in> set t"
    then show "processSchema n (pre' @ snd (parseAt (length pre') c') @ post') (rootAt (length pre') c')
                 = Some (pre' @ snd (parseAt (length pre') (processTree c')) @ post')"
      by (intro Cons.prems(1)) simp
  next
    fix i and X :: "cell list"
    assume i: "i < length t" and X: "length X = sum_list (map ncells t)"
    have "f (pre @ (?cc' @ X) @ rest) (xs ! Suc i)
            = processSchema n (pre @ (?cc' @ X) @ rest) (fst (parseListAt ?b (c # t)) ! Suc i)"
      using i X by (intro Cons.prems(2)) (simp_all add: lcc')
    then show "f (?pre' @ X @ rest) (xt ! i)
                 = processSchema n (?pre' @ X @ rest) (fst (parseListAt (length ?pre') t) ! i)"
      by (simp add: xs parseListAt_Cons lp)
  next
    show "length xt = length t" by (rule lt)
  qed
  have "forEachE f xs ?H = forEachE f xt (pre @ ?cc' @ (?ct @ rest))"
    by (simp add: xs first step)
  also have "\<dots> = forEachE f xt (?pre' @ snd (parseListAt (length ?pre') t) @ rest)"
    by (simp add: lp)
  also note tail
  also have "?pre' @ snd (parseListAt (length ?pre') (map processTree t)) @ rest
               = pre @ snd (parseListAt ?b (map processTree (c # t))) @ rest"
    by (simp add: parseListAt_Cons lp ncells_processTree)
  finally show ?case .
qed

subsection \<open>The objects of a property value\<close>

lemma parsePropsAt_Cons:
  "parsePropsAt b (kj # kjs) =
     ((fst kj, rootAt b (snd kj)) # fst (parsePropsAt (b + ncells (snd kj)) kjs),
      snd (parseAt b (snd kj)) @ snd (parsePropsAt (b + ncells (snd kj)) kjs))"
  by (simp add: parsePropsAt.simps(2) case_prod_unfold parseAt_layout(1))

lemma parsePropsAt_len [simp]:
  "length (snd (parsePropsAt b kjs)) = sum_list (map (\<lambda>kj. ncells (snd kj)) kjs)"
  by (rule parseAt_layout(3) [THEN conjunct2])

lemma parsePropsAt_keys [simp]: "map fst (fst (parsePropsAt b kjs)) = map fst kjs"
  by (rule parseAt_layout(3) [THEN conjunct1])

lemma parseAt_JObj_props:
  "parseAt b (JObj kjs) =
     (VRef (b + sum_list (map (\<lambda>kj. ncells (snd kj)) kjs)),
      snd (parsePropsAt b kjs) @ [Obj (fst (parsePropsAt b kjs))])"
  by (simp add: parseAt.simps(6) case_prod_unfold)

lemma field_root:
  "map_of (fst (parsePropsAt b kjs)) k =
     (case map_of kjs k of None \<Rightarrow> None | Some c \<Rightarrow> Some (rootAt (baseOf b kjs k) c))"
  by (induction kjs arbitrary: b) (auto simp: parsePropsAt_Cons split: option.splits)

lemma props_child:
  assumes "map_of kjs k = Some c" and "ncells c' = ncells c"
    and "rootAt (baseOf b kjs k) c' = rootAt (baseOf b kjs k) c"
  shows "\<exists>P Q. b + length P = baseOf b kjs k
           \<and> snd (parsePropsAt b kjs) = P @ snd (parseAt (baseOf b kjs k) c) @ Q
           \<and> snd (parsePropsAt b (AList.update k c' kjs)) = P @ snd (parseAt (baseOf b kjs k) c') @ Q
           \<and> fst (parsePropsAt b (AList.update k c' kjs)) = fst (parsePropsAt b kjs)"
  using assms
proof (induction kjs arbitrary: b)
  case Nil
  then show ?case by simp
next
  case (Cons kj kjs)
  show ?case
  proof (cases "fst kj = k")
    case True
    with Cons.prems have c: "snd kj = c" by (cases kj) simp
    have u: "AList.update k c' (kj # kjs) = (k, c') # kjs" using True by (cases kj) simp
    let ?Q = "snd (parsePropsAt (b + ncells c) kjs)"
    have "b + length ([] :: cell list) = baseOf b (kj # kjs) k
           \<and> snd (parsePropsAt b (kj # kjs)) = [] @ snd (parseAt (baseOf b (kj # kjs) k) c) @ ?Q
           \<and> snd (parsePropsAt b (AList.update k c' (kj # kjs))) = [] @ snd (parseAt (baseOf b (kj # kjs) k) c') @ ?Q
           \<and> fst (parsePropsAt b (AList.update k c' (kj # kjs))) = fst (parsePropsAt b (kj # kjs))"
      using True c Cons.prems(2,3) by (simp add: u parsePropsAt_Cons)
    then show ?thesis by blast
  next
    case False
    with Cons.prems(1) have m: "map_of kjs k = Some c" by (cases kj) simp
    let ?b' = "b + ncells (snd kj)"
    have bo: "baseOf b (kj # kjs) k = baseOf ?b' kjs k" using False by simp
    have u: "AList.update k c' (kj # kjs) = kj # AList.update k c' kjs" using False by (cases kj) simp
    from Cons.IH [OF m Cons.prems(2), of ?b'] Cons.prems(3)
    obtain P Q where pq: "?b' + length P = baseOf ?b' kjs k"
        "snd (parsePropsAt ?b' kjs) = P @ snd (parseAt (baseOf ?b' kjs k) c) @ Q"
        "snd (parsePropsAt ?b' (AList.update k c' kjs)) = P @ snd (parseAt (baseOf ?b' kjs k) c') @ Q"
        "fst (parsePropsAt ?b' (AList.update k c' kjs)) = fst (parsePropsAt ?b' kjs)"
      unfolding bo by blast
    let ?P = "snd (parseAt b (snd kj)) @ P"
    have "b + length ?P = baseOf b (kj # kjs) k
           \<and> snd (parsePropsAt b (kj # kjs)) = ?P @ snd (parseAt (baseOf b (kj # kjs) k) c) @ Q
           \<and> snd (parsePropsAt b (AList.update k c' (kj # kjs))) = ?P @ snd (parseAt (baseOf b (kj # kjs) k) c') @ Q
           \<and> fst (parsePropsAt b (AList.update k c' (kj # kjs))) = fst (parsePropsAt b (kj # kjs))"
      using pq False by (simp add: u parsePropsAt_Cons)
    then show ?thesis by blast
  qed
qed

subsection \<open>The first statement: closing the object\<close>

lemma rootAt_VStr [simp]: "rootAt b c = VStr s \<longleftrightarrow> c = JStr s"
  by (cases c) auto

lemma getField_root:
  "getField (Obj (fst (parsePropsAt b kjs))) k =
     (case map_of kjs k of None \<Rightarrow> VUndef | Some c \<Rightarrow> rootAt (baseOf b kjs k) c)"
  by (simp add: getField_Obj field_root split: option.splits)

lemma hasField_root: "hasField (Obj (fst (parsePropsAt b kjs))) k = (k \<in> fst ` set kjs)"
proof -
  have "fst ` set (fst (parsePropsAt b kjs)) = set (map fst (fst (parsePropsAt b kjs)))"
    by (simp only: set_map)
  also have "\<dots> = set (map fst kjs)" by (simp only: parsePropsAt_keys)
  also have "\<dots> = fst ` set kjs" by (simp only: set_map)
  finally show ?thesis by (simp only: hasField_Obj)
qed

lemma parsePropsAt_snoc:
  "parsePropsAt b (kjs @ [(k, JBool x)]) =
     (fst (parsePropsAt b kjs) @ [(k, VBool x)], snd (parsePropsAt b kjs))"
  by (induction kjs arbitrary: b) (simp_all add: parsePropsAt_Cons)

lemma update_cell_mid:
  "n = length pre + length X \<Longrightarrow> (pre @ X @ c # post)[n := c'] = pre @ X @ c' # post"
  by (simp add: list_update_append)

text \<open>The first statement of the pass: closing the object.\<close>

lemma close_stage:
  assumes "b = length pre" and "a = b + length (snd (parsePropsAt b kjs))"
  shows "(if getField (Obj (fst (parsePropsAt b kjs))) ''type'' = VStr ''object''
             \<and> \<not> hasField (Obj (fst (parsePropsAt b kjs))) ''additionalProperties''
          then (pre @ snd (parsePropsAt b kjs) @ Obj (fst (parsePropsAt b kjs)) # post)
                 [a := Obj (AList.update ''additionalProperties'' (VBool False) (fst (parsePropsAt b kjs)))]
          else pre @ snd (parsePropsAt b kjs) @ Obj (fst (parsePropsAt b kjs)) # post)
         = pre @ snd (parsePropsAt b (closeObject kjs)) @ Obj (fst (parsePropsAt b (closeObject kjs))) # post"
proof -
  let ?K = "fst (parsePropsAt b kjs)"
  have t: "getField (Obj ?K) ''type'' = VStr ''object'' \<longleftrightarrow> map_of kjs ''type'' = Some (JStr ''object'')"
    by (simp add: getField_root split: option.splits)
  show ?thesis
  proof (cases "map_of kjs ''type'' = Some (JStr ''object'') \<and> ''additionalProperties'' \<notin> fst ` set kjs")
    case True
    then have absent: "''additionalProperties'' \<notin> fst ` set ?K"
      using hasField_root [of b kjs "''additionalProperties''"] by (simp add: hasField_Obj)
    have c: "closeObject kjs = kjs @ [(''additionalProperties'', JBool False)]"
      using True by (simp add: closeObject_eq)
    show ?thesis
      using True t absent assms
      by (simp add: hasField_root c parsePropsAt_snoc update_absent update_cell_mid)
  next
    case False
    then have c: "closeObject kjs = kjs" by (auto simp: closeObject_eq)
    show ?thesis using False t by (auto simp: hasField_root c)
  qed
qed

subsection \<open>A statement on one property value, and the two loops\<close>

lemma cellAt_mid': "a = length pre + length X \<Longrightarrow> cellAt (pre @ X @ c # post) a = c"
  by (simp add: cellAt_mid)

lemma roots_processed:
  "fst (parseListAt b (map processTree js)) = fst (parseListAt b js)"
  by (induction js arbitrary: b) (simp_all add: parseListAt_Cons)

lemma parseListAt_roots_nth:
  "i < length js \<Longrightarrow> \<exists>B. fst (parseListAt b js) ! i = rootAt B (js ! i)"
proof (induction js arbitrary: b i)
  case Nil
  then show ?case by simp
next
  case (Cons c t)
  show ?case
  proof (cases i)
    case 0
    then show ?thesis by (simp add: parseListAt_Cons) blast
  next
    case (Suc i')
    with Cons.prems have "i' < length t" by simp
    from Cons.IH [OF this, of "b + ncells c"] show ?thesis by (simp add: Suc parseListAt_Cons)
  qed
qed

text \<open>
  A statement that works on the objects of one property value, and leaves the store
  outside them alone, works on the object that holds the property.
\<close>

lemma stage:
  assumes b: "b = length pre"
    and m: "map_of A k = Some c"
    and nc: "ncells c' = ncells c"
    and rt: "rootAt (baseOf b A k) c' = rootAt (baseOf b A k) c"
    and G: "\<And>pre' post'. length pre' = baseOf b A k \<Longrightarrow>
              G (pre' @ snd (parseAt (length pre') c) @ post')
                = Some (pre' @ snd (parseAt (length pre') c') @ post')"
  shows "G (pre @ snd (parsePropsAt b A) @ Obj K # post)
           = Some (pre @ snd (parsePropsAt b (AList.update k c' A)) @ Obj K # post)
         \<and> fst (parsePropsAt b (AList.update k c' A)) = fst (parsePropsAt b A)"
proof -
  let ?B = "baseOf b A k"
  from props_child [OF m nc rt]
  obtain P Q where pq: "b + length P = ?B"
      "snd (parsePropsAt b A) = P @ snd (parseAt ?B c) @ Q"
      "snd (parsePropsAt b (AList.update k c' A)) = P @ snd (parseAt ?B c') @ Q"
      "fst (parsePropsAt b (AList.update k c' A)) = fst (parsePropsAt b A)"
    by blast
  have l: "length (pre @ P) = ?B" using pq(1) b by simp
  have "G ((pre @ P) @ snd (parseAt (length (pre @ P)) c) @ (Q @ Obj K # post))
          = Some ((pre @ P) @ snd (parseAt (length (pre @ P)) c') @ (Q @ Obj K # post))"
    using l by (rule G)
  then have "G (pre @ (P @ snd (parseAt ?B c) @ Q) @ Obj K # post)
          = Some (pre @ (P @ snd (parseAt ?B c') @ Q) @ Obj K # post)"
    unfolding l by simp
  then show ?thesis unfolding pq(2) [symmetric] pq(3) [symmetric] using pq(4) by simp
qed

text \<open>The loop over the elements of an array, and the one over the values of an object.\<close>

lemma array_loop:
  assumes ih: "\<And>c pre post. c \<in> set js \<Longrightarrow>
      processSchema n (pre @ snd (parseAt (length pre) c) @ post) (rootAt (length pre) c)
        = Some (pre @ snd (parseAt (length pre) (processTree c)) @ post)"
    and p: "p = length pre + sum_list (map ncells js)"
  shows "forEachE (\<lambda>h i. processSchema n h (elemAt (cellAt h p) i)) [0..<length js]
           (pre @ snd (parseAt (length pre) (JArr js)) @ post)
         = Some (pre @ snd (parseAt (length pre) (JArr (map processTree js))) @ post)"
proof -
  let ?b = "length pre"
  let ?vs = "fst (parseListAt ?b js)"
  let ?rest = "Arr ?vs # post"
  have "forEachE (\<lambda>h i. processSchema n h (elemAt (cellAt h p) i)) [0..<length js]
           (pre @ snd (parseListAt ?b js) @ ?rest)
         = Some (pre @ snd (parseListAt ?b (map processTree js)) @ ?rest)"
  proof (rule loop_children [OF ih])
    fix i and X :: "cell list"
    assume i: "i < length js" and X: "length X = sum_list (map ncells js)"
    have "cellAt (pre @ X @ ?rest) p = Arr ?vs" using p X by (simp add: cellAt_mid')
    then show "processSchema n (pre @ X @ ?rest) (elemAt (cellAt (pre @ X @ ?rest) p) ([0..<length js] ! i))
                 = processSchema n (pre @ X @ ?rest) (?vs ! i)"
      using i by (simp add: elemAt_def)
  qed simp_all
  then show ?thesis by (simp add: parseAt_JArr roots_processed)
qed

lemma object_loop:
  assumes ih: "\<And>c pre post. c \<in> snd ` set ps \<Longrightarrow>
      processSchema n (pre @ snd (parseAt (length pre) c) @ post) (rootAt (length pre) c)
        = Some (pre @ snd (parseAt (length pre) (processTree c)) @ post)"
    and p: "p = length pre + sum_list (map (\<lambda>kj. ncells (snd kj)) ps)"
    and d: "distinct (map fst ps)"
  shows "forEachE (\<lambda>h key. processSchema n h (getField (cellAt h p) key)) (map fst ps)
           (pre @ snd (parseAt (length pre) (JObj ps)) @ post)
         = Some (pre @ snd (parseAt (length pre) (JObj (map (\<lambda>kj. (fst kj, processTree (snd kj))) ps))) @ post)"
proof -
  let ?b = "length pre"
  let ?js = "map snd ps"
  let ?vs = "fst (parseListAt ?b ?js)"
  let ?kvs = "zip (map fst ps) ?vs"
  let ?rest = "Obj ?kvs # post"
  have s: "sum_list (map ncells ?js) = sum_list (map (\<lambda>kj. ncells (snd kj)) ps)"
    by (simp add: comp_def)
  have loop: "forEachE (\<lambda>h key. processSchema n h (getField (cellAt h p) key)) (map fst ps)
           (pre @ snd (parseListAt ?b ?js) @ ?rest)
         = Some (pre @ snd (parseListAt ?b (map processTree ?js)) @ ?rest)"
  proof (rule loop_children)
    fix c pre' post'
    assume "c \<in> set ?js"
    then have "c \<in> snd ` set ps" by simp
    then show "processSchema n (pre' @ snd (parseAt (length pre') c) @ post') (rootAt (length pre') c)
                 = Some (pre' @ snd (parseAt (length pre') (processTree c)) @ post')"
      by (rule ih)
  next
    fix i and X :: "cell list"
    assume i: "i < length ?js" and X: "length X = sum_list (map ncells ?js)"
    have c: "cellAt (pre @ X @ ?rest) p = Obj ?kvs" using p X s by (simp add: cellAt_mid')
    have "map_of ?kvs (map fst ps ! i) = Some (?vs ! i)"
      using i d by (intro map_of_zip_nth) simp_all
    then have "getField (Obj ?kvs) (map fst ps ! i) = ?vs ! i" by (simp add: getField_Obj)
    then show "processSchema n (pre @ X @ ?rest) (getField (cellAt (pre @ X @ ?rest) p) (map fst ps ! i))
                 = processSchema n (pre @ X @ ?rest) (?vs ! i)"
      by (simp add: c)
  qed simp
  have e1: "map snd (map (\<lambda>kj. (fst kj, processTree (snd kj))) ps) = map processTree ?js"
    by (simp add: comp_def)
  have e2: "map fst (map (\<lambda>kj. (fst kj, processTree (snd kj))) ps) = map fst ps"
    by (simp add: comp_def)
  show ?thesis
    using loop by (simp only: parseAt_JObj e1 e2 roots_processed snd_conv append.simps append_assoc)
qed

subsection \<open>Heights and sizes\<close>

lemma fold_max_ge: "(a :: nat) \<le> fold max xs a"
proof (induction xs arbitrary: a)
  case Nil
  show ?case by simp
next
  case (Cons x xs)
  have "a \<le> max x a" by simp
  also have "\<dots> \<le> fold max xs (max x a)" by (rule Cons.IH)
  finally show ?case by simp
qed

lemma fold_max_mem: "x \<in> set xs \<Longrightarrow> (x :: nat) \<le> fold max xs a"
proof (induction xs arbitrary: a)
  case Nil
  then show ?case by simp
next
  case (Cons y ys)
  show ?case
  proof (cases "x = y")
    case True
    have "x \<le> max y a" using True by simp
    also have "\<dots> \<le> fold max ys (max y a)" by (rule fold_max_ge)
    finally show ?thesis by simp
  next
    case False
    with Cons.prems have "x \<in> set ys" by simp
    then show ?thesis by (simp add: Cons.IH)
  qed
qed

lemma height_element: "c \<in> set js \<Longrightarrow> height c < height (JArr js)"
proof -
  assume "c \<in> set js"
  then have "height c \<in> set (map height js)" by simp
  then have "height c \<le> fold max (map height js) 0" by (rule fold_max_mem)
  then show ?thesis by simp
qed

lemma height_value: "kj \<in> set kjs \<Longrightarrow> height (snd kj) < height (JObj kjs)"
proof -
  assume "kj \<in> set kjs"
  then have "height (snd kj) \<in> set (map (\<lambda>kj. height (snd kj)) kjs)" by simp
  then have "height (snd kj) \<le> fold max (map (\<lambda>kj. height (snd kj)) kjs) 0" by (rule fold_max_mem)
  then show ?thesis by simp
qed

lemma height_binding: "map_of kjs k = Some c \<Longrightarrow> height c < height (JObj kjs)"
  using height_value [of "(k, c)" kjs] by (auto dest: map_of_SomeD)

lemma wfj_binding: "wfj (JObj kjs) \<Longrightarrow> map_of kjs k = Some c \<Longrightarrow> wfj c"
  by (auto dest: map_of_SomeD)

lemma rootAt_JArr: "rootAt B (JArr js) = VRef (B + sum_list (map ncells js))"
  by simp

lemma rootAt_JObj: "rootAt B (JObj ps) = VRef (B + sum_list (map (\<lambda>kj. ncells (snd kj)) ps))"
  by simp

lemma ncells_mapped: "sum_list (map ncells (map processTree js)) = sum_list (map ncells js)"
  by (rule ncells_map_processed) simp

lemma ncells_mapped_props:
  "sum_list (map (\<lambda>kj. ncells (snd kj)) (map (\<lambda>kj. (fst kj, processTree (snd kj))) ps))
     = sum_list (map (\<lambda>kj. ncells (snd kj)) ps)"
  by (induction ps) simp_all

subsection \<open>The loops as the pass runs them\<close>

lemma stage_size:
  assumes "map_of A k = Some c" and "ncells c' = ncells c"
  shows "sum_list (map (\<lambda>kj. ncells (snd kj)) (AList.update k c' A))
           = sum_list (map (\<lambda>kj. ncells (snd kj)) A)"
proof -
  from assms(1) obtain xs ys where "A = xs @ (k, c) # ys" "k \<notin> fst ` set xs"
    by (rule update_split)
  then show ?thesis using assms(2) by (simp add: update_at)
qed

lemma cell_root:
  "a = length pre + sum_list (map (\<lambda>kj. ncells (snd kj)) A) \<Longrightarrow>
     cellAt (pre @ snd (parsePropsAt b A) @ Obj K # post) a = Obj K"
  by (simp add: cellAt_mid')

lemma array_stage_aux:
  assumes ih: "\<And>c pre post. wfj c \<Longrightarrow> height c < n \<Longrightarrow>
      processSchema n (pre @ snd (parseAt (length pre) c) @ post) (rootAt (length pre) c)
        = Some (pre @ snd (parseAt (length pre) (processTree c)) @ post)"
    and wf: "wfj (JArr js)" "height (JArr js) \<le> n"
    and p: "p = length pre + sum_list (map ncells js)"
  shows "cellAt (pre @ snd (parseAt (length pre) (JArr js)) @ post) p = Arr (fst (parseListAt (length pre) js))"
    and "forEachE (\<lambda>h i. processSchema n h (elemAt (cellAt h p) i)) [0..<length js]
           (pre @ snd (parseAt (length pre) (JArr js)) @ post)
         = Some (pre @ snd (parseAt (length pre) (JArr (map processTree js))) @ post)"
proof -
  show "cellAt (pre @ snd (parseAt (length pre) (JArr js)) @ post) p = Arr (fst (parseListAt (length pre) js))"
    using p by (simp add: parseAt_JArr cellAt_mid')
  show "forEachE (\<lambda>h i. processSchema n h (elemAt (cellAt h p) i)) [0..<length js]
           (pre @ snd (parseAt (length pre) (JArr js)) @ post)
         = Some (pre @ snd (parseAt (length pre) (JArr (map processTree js))) @ post)"
  proof (rule array_loop [OF _ p])
    fix c pre' post'
    assume c: "c \<in> set js"
    then have "wfj c" using wf(1) by simp
    moreover have "height c < n" using height_element [OF c] wf(2) by simp
    ultimately show "processSchema n (pre' @ snd (parseAt (length pre') c) @ post') (rootAt (length pre') c)
        = Some (pre' @ snd (parseAt (length pre') (processTree c)) @ post')"
      by (rule ih)
  qed
qed

lemma object_stage_aux:
  assumes ih: "\<And>c pre post. wfj c \<Longrightarrow> height c < n \<Longrightarrow>
      processSchema n (pre @ snd (parseAt (length pre) c) @ post) (rootAt (length pre) c)
        = Some (pre @ snd (parseAt (length pre) (processTree c)) @ post)"
    and wf: "wfj (JObj ps)" "height (JObj ps) \<le> n"
    and p: "p = length pre + sum_list (map (\<lambda>kj. ncells (snd kj)) ps)"
  shows "cellAt (pre @ snd (parseAt (length pre) (JObj ps)) @ post) p = Obj (fst (parsePropsAt (length pre) ps))"
    and "map fst (ownProps (Obj (fst (parsePropsAt (length pre) ps)))) = map fst ps"
    and "forEachE (\<lambda>h key. processSchema n h (getField (cellAt h p) key)) (map fst ps)
           (pre @ snd (parseAt (length pre) (JObj ps)) @ post)
         = Some (pre @ snd (parseAt (length pre) (JObj (map (\<lambda>kj. (fst kj, processTree (snd kj))) ps))) @ post)"
proof -
  show "cellAt (pre @ snd (parseAt (length pre) (JObj ps)) @ post) p = Obj (fst (parsePropsAt (length pre) ps))"
    using p by (simp add: parseAt_JObj_props cellAt_mid')
  have d: "distinct (map fst ps)" using wf(1) by simp
  then have "distinct (map fst (fst (parsePropsAt (length pre) ps)))" by simp
  then show "map fst (ownProps (Obj (fst (parsePropsAt (length pre) ps)))) = map fst ps"
    by (simp add: distinct_clearjunk_id)
  show "forEachE (\<lambda>h key. processSchema n h (getField (cellAt h p) key)) (map fst ps)
           (pre @ snd (parseAt (length pre) (JObj ps)) @ post)
         = Some (pre @ snd (parseAt (length pre) (JObj (map (\<lambda>kj. (fst kj, processTree (snd kj))) ps))) @ post)"
  proof (rule object_loop [OF _ p d])
    fix c pre' post'
    assume "c \<in> snd ` set ps"
    then obtain kj where kj: "kj \<in> set ps" "c = snd kj" by blast
    then have "wfj c" using wf(1) by simp
    moreover have "height c < n" using height_value [OF kj(1)] wf(2) kj(2) by simp
    ultimately show "processSchema n (pre' @ snd (parseAt (length pre') c) @ post') (rootAt (length pre') c)
        = Some (pre' @ snd (parseAt (length pre') (processTree c)) @ post')"
      by (rule ih)
  qed
qed

subsection \<open>The statements of the pass, one by one\<close>

lemma stage':
  assumes b: "b = length pre"
    and m: "map_of A k = Some c"
    and nc: "ncells c' = ncells c"
    and rt: "rootAt (baseOf b A k) c' = rootAt (baseOf b A k) c"
    and G: "\<And>pre' post'. length pre' = baseOf b A k \<Longrightarrow>
              G (pre' @ snd (parseAt (length pre') c) @ post')
                = Some (pre' @ snd (parseAt (length pre') c') @ post')"
  shows "G (pre @ snd (parsePropsAt b A) @ Obj K # post)
           = Some (pre @ snd (parsePropsAt b (AList.update k c' A)) @ Obj K # post)
         \<and> fst (parsePropsAt b (AList.update k c' A)) = fst (parsePropsAt b A)
         \<and> sum_list (map (\<lambda>kj. ncells (snd kj)) (AList.update k c' A))
             = sum_list (map (\<lambda>kj. ncells (snd kj)) A)"
  using stage [OF b m nc rt G] stage_size [OF m nc] by simp

lemma properties_stage:
  assumes ih: "\<And>c pre post. wfj c \<Longrightarrow> height c < n \<Longrightarrow>
      processSchema n (pre @ snd (parseAt (length pre) c) @ post) (rootAt (length pre) c)
        = Some (pre @ snd (parseAt (length pre) (processTree c)) @ post)"
    and b: "b = length pre"
    and wf: "\<And>c. map_of A ''properties'' = Some c \<Longrightarrow> wfj c \<and> height c \<le> n"
    and a: "a = b + sum_list (map (\<lambda>kj. ncells (snd kj)) A)"
    and K: "K = fst (parsePropsAt b A)"
    and H: "H = pre @ snd (parsePropsAt b A) @ Obj K # post"
    and A': "A' = rebind ''properties''
                   (case map_of A ''properties'' of
                      Some (JObj ps) \<Rightarrow> Some (JObj (map (\<lambda>kj. (fst kj, processTree (snd kj))) ps))
                    | Some (JArr js) \<Rightarrow> Some (JArr (map processTree js))
                    | _ \<Rightarrow> None) A"
  shows "(case getField (cellAt H a) ''properties'' of
            VRef p \<Rightarrow>
              (case cellAt H p of
                 Obj props \<Rightarrow>
                   forEachE (\<lambda>h' key. processSchema n h' (getField (cellAt h' p) key))
                     (map fst (ownProps (Obj props))) H
               | Arr vs \<Rightarrow>
                   forEachE (\<lambda>h' i. processSchema n h' (elemAt (cellAt h' p) i))
                     [0..<length vs] H)
          | _ \<Rightarrow> Some H)
         = Some (pre @ snd (parsePropsAt b A') @ Obj K # post)
       \<and> fst (parsePropsAt b A') = K
       \<and> sum_list (map (\<lambda>kj. ncells (snd kj)) A') = sum_list (map (\<lambda>kj. ncells (snd kj)) A)"
proof -
  let ?B = "baseOf b A ''properties''"
  let ?K = "fst (parsePropsAt b A)"
  define H0 where "H0 = pre @ snd (parsePropsAt b A) @ Obj ?K # post"
  have HH: "H = H0" by (simp add: H K H0_def)
  have root: "cellAt H0 a = Obj ?K"
    unfolding H0_def using a b by (simp add: cell_root)
  show ?thesis
  proof (cases "map_of A ''properties''")
    case None
    then show ?thesis by (simp add: HH K root getField_root A') (simp add: H0_def)
  next
    case (Some c)
    note wfc = wf [OF Some]
    have gf: "getField (cellAt H0 a) ''properties'' = rootAt ?B c"
      using Some by (simp add: root getField_root)
    show ?thesis
    proof (cases c)
      case (JArr js)
      let ?p = "?B + sum_list (map ncells js)"
      let ?G = "\<lambda>h. case cellAt h ?p of
                 Obj props \<Rightarrow>
                   forEachE (\<lambda>h' key. processSchema n h' (getField (cellAt h' ?p) key))
                     (map fst (ownProps (Obj props))) h
               | Arr vs \<Rightarrow>
                   forEachE (\<lambda>h' i. processSchema n h' (elemAt (cellAt h' ?p) i))
                     [0..<length vs] h"
      have m: "map_of A ''properties'' = Some (JArr js)" using Some JArr by simp
      have "?G (pre @ snd (parsePropsAt b A) @ Obj ?K # post)
           = Some (pre @ snd (parsePropsAt b (AList.update ''properties'' (JArr (map processTree js)) A)) @ Obj ?K # post)
         \<and> fst (parsePropsAt b (AList.update ''properties'' (JArr (map processTree js)) A)) = fst (parsePropsAt b A)
         \<and> sum_list (map (\<lambda>kj. ncells (snd kj)) (AList.update ''properties'' (JArr (map processTree js)) A))
             = sum_list (map (\<lambda>kj. ncells (snd kj)) A)"
      proof (rule stage' [OF b m])
        show "ncells (JArr (map processTree js)) = ncells (JArr js)"
          by (simp only: ncells.simps ncells_mapped)
        show "rootAt ?B (JArr (map processTree js)) = rootAt ?B (JArr js)"
          by (simp only: rootAt.simps ncells.simps ncells_mapped)
        fix pre' :: "cell list" and post' :: "cell list"
        assume l: "length pre' = ?B"
        have p: "?p = length pre' + sum_list (map ncells js)" using l by simp
        from wfc JArr have w: "wfj (JArr js)" "height (JArr js) \<le> n" by simp_all
        note aux = array_stage_aux [OF ih w p]
        show "?G (pre' @ snd (parseAt (length pre') (JArr js)) @ post')
                = Some (pre' @ snd (parseAt (length pre') (JArr (map processTree js))) @ post')"
          by (simp only: aux(1) cell.case parseAt_layout(2) [THEN conjunct1] aux(2))
      qed
      then show ?thesis unfolding H0_def [symmetric] HH using m
        by (simp add: K gf JArr A' rootAt_JArr del: rootAt.simps)
    next
      case (JObj ps)
      let ?p = "?B + sum_list (map (\<lambda>kj. ncells (snd kj)) ps)"
      let ?c' = "JObj (map (\<lambda>kj. (fst kj, processTree (snd kj))) ps)"
      let ?G = "\<lambda>h. case cellAt h ?p of
                 Obj props \<Rightarrow>
                   forEachE (\<lambda>h' key. processSchema n h' (getField (cellAt h' ?p) key))
                     (map fst (ownProps (Obj props))) h
               | Arr vs \<Rightarrow>
                   forEachE (\<lambda>h' i. processSchema n h' (elemAt (cellAt h' ?p) i))
                     [0..<length vs] h"
      have m: "map_of A ''properties'' = Some (JObj ps)" using Some JObj by simp
      have "?G (pre @ snd (parsePropsAt b A) @ Obj ?K # post)
           = Some (pre @ snd (parsePropsAt b (AList.update ''properties'' ?c' A)) @ Obj ?K # post)
         \<and> fst (parsePropsAt b (AList.update ''properties'' ?c' A)) = fst (parsePropsAt b A)
         \<and> sum_list (map (\<lambda>kj. ncells (snd kj)) (AList.update ''properties'' ?c' A))
             = sum_list (map (\<lambda>kj. ncells (snd kj)) A)"
      proof (rule stage' [OF b m])
        show "ncells ?c' = ncells (JObj ps)"
          by (simp only: ncells.simps ncells_mapped_props)
        show "rootAt ?B ?c' = rootAt ?B (JObj ps)"
          by (simp only: rootAt.simps ncells.simps ncells_mapped_props)
        fix pre' :: "cell list" and post' :: "cell list"
        assume l: "length pre' = ?B"
        have p: "?p = length pre' + sum_list (map (\<lambda>kj. ncells (snd kj)) ps)" using l by simp
        from wfc JObj have w: "wfj (JObj ps)" "height (JObj ps) \<le> n" by simp_all
        note aux = object_stage_aux [OF ih w p]
        show "?G (pre' @ snd (parseAt (length pre') (JObj ps)) @ post')
                = Some (pre' @ snd (parseAt (length pre') ?c') @ post')"
          by (simp only: aux(1) cell.case aux(2) aux(3))
      qed
      then show ?thesis unfolding H0_def [symmetric] HH using m
        by (simp add: K gf JObj A' rootAt_JObj del: rootAt.simps)
    qed (unfold HH, use Some in \<open>simp_all add: K gf A' H0_def [symmetric]\<close>)
  qed
qed

lemma falsy_root: "\<not> truthy (rootAt B c) \<Longrightarrow> processTree c = c"
  by (cases c) simp_all

lemma items_stage:
  assumes ih: "\<And>c pre post. wfj c \<Longrightarrow> height c < n \<Longrightarrow>
      processSchema n (pre @ snd (parseAt (length pre) c) @ post) (rootAt (length pre) c)
        = Some (pre @ snd (parseAt (length pre) (processTree c)) @ post)"
    and b: "b = length pre"
    and wf: "\<And>c. map_of A ''items'' = Some c \<Longrightarrow> wfj c \<and> height c < n"
    and a: "a = b + sum_list (map (\<lambda>kj. ncells (snd kj)) A)"
    and K: "K = fst (parsePropsAt b A)"
    and H: "H = pre @ snd (parsePropsAt b A) @ Obj K # post"
    and A': "A' = rebind ''items''
                   (case map_of A ''items'' of Some j \<Rightarrow> Some (processTree j) | None \<Rightarrow> None) A"
  shows "(if truthy (getField (cellAt H a) ''items'')
          then processSchema n H (getField (cellAt H a) ''items'')
          else Some H)
         = Some (pre @ snd (parsePropsAt b A') @ Obj K # post)
       \<and> fst (parsePropsAt b A') = K
       \<and> sum_list (map (\<lambda>kj. ncells (snd kj)) A') = sum_list (map (\<lambda>kj. ncells (snd kj)) A)"
proof -
  let ?B = "baseOf b A ''items''"
  let ?K = "fst (parsePropsAt b A)"
  define H0 where "H0 = pre @ snd (parsePropsAt b A) @ Obj ?K # post"
  have HH: "H = H0" by (simp add: H K H0_def)
  have root: "cellAt H0 a = Obj ?K"
    unfolding H0_def using a b by (simp add: cell_root)
  show ?thesis
  proof (cases "map_of A ''items''")
    case None
    then show ?thesis unfolding HH by (simp add: K root getField_root A' H0_def [symmetric])
  next
    case (Some c)
    note wfc = wf [OF Some]
    have gf: "getField (cellAt H0 a) ''items'' = rootAt ?B c"
      using Some by (simp add: root getField_root)
    show ?thesis
    proof (cases "truthy (rootAt ?B c)")
      case True
      have "processSchema n (pre @ snd (parsePropsAt b A) @ Obj ?K # post) (rootAt ?B c)
           = Some (pre @ snd (parsePropsAt b (AList.update ''items'' (processTree c) A)) @ Obj ?K # post)
         \<and> fst (parsePropsAt b (AList.update ''items'' (processTree c) A)) = fst (parsePropsAt b A)
         \<and> sum_list (map (\<lambda>kj. ncells (snd kj)) (AList.update ''items'' (processTree c) A))
             = sum_list (map (\<lambda>kj. ncells (snd kj)) A)"
      proof (rule stage' [OF b Some, where G = "\<lambda>h. processSchema n h (rootAt ?B c)"])
        show "ncells (processTree c) = ncells c" by simp
        show "rootAt ?B (processTree c) = rootAt ?B c" by simp
        fix pre' :: "cell list" and post' :: "cell list"
        assume l: "length pre' = ?B"
        show "processSchema n (pre' @ snd (parseAt (length pre') c) @ post') (rootAt ?B c)
                = Some (pre' @ snd (parseAt (length pre') (processTree c)) @ post')"
          using ih [of c pre' post'] wfc l by simp
      qed
      then show ?thesis unfolding H0_def [symmetric] HH using Some True
        by (simp add: K gf A')
    next
      case False
      then have "processTree c = c" by (rule falsy_root)
      then have "A' = A" using Some by (simp add: A' update_triv)
      then show ?thesis unfolding HH using False by (simp add: K gf H0_def [symmetric])
    qed
  qed
qed

lemma combinator_stage:
  assumes ih: "\<And>c pre post. wfj c \<Longrightarrow> height c < n \<Longrightarrow>
      processSchema n (pre @ snd (parseAt (length pre) c) @ post) (rootAt (length pre) c)
        = Some (pre @ snd (parseAt (length pre) (processTree c)) @ post)"
    and b: "b = length pre"
    and wf: "\<And>c. map_of A k = Some c \<Longrightarrow> wfj c \<and> height c \<le> n"
    and a: "a = b + sum_list (map (\<lambda>kj. ncells (snd kj)) A)"
    and K: "K = fst (parsePropsAt b A)"
    and H: "H = pre @ snd (parsePropsAt b A) @ Obj K # post"
    and A': "A' = rebind k
                   (case map_of A k of
                      Some (JArr js) \<Rightarrow> Some (JArr (map processTree js)) | _ \<Rightarrow> None) A"
  shows "(case getField (cellAt H a) k of
            VRef r \<Rightarrow>
              (case cellAt H r of
                 Arr vs \<Rightarrow>
                   forEachE (\<lambda>h'' i. processSchema n h'' (elemAt (cellAt h'' r) i))
                     [0..<length vs] H
               | Obj kvs' \<Rightarrow> Some H)
          | _ \<Rightarrow> Some H)
         = Some (pre @ snd (parsePropsAt b A') @ Obj K # post)
       \<and> fst (parsePropsAt b A') = K
       \<and> sum_list (map (\<lambda>kj. ncells (snd kj)) A') = sum_list (map (\<lambda>kj. ncells (snd kj)) A)"
proof -
  let ?B = "baseOf b A k"
  let ?K = "fst (parsePropsAt b A)"
  define H0 where "H0 = pre @ snd (parsePropsAt b A) @ Obj ?K # post"
  have HH: "H = H0" by (simp add: H K H0_def)
  have root: "cellAt H0 a = Obj ?K"
    unfolding H0_def using a b by (simp add: cell_root)
  show ?thesis
  proof (cases "map_of A k")
    case None
    then show ?thesis unfolding HH by (simp add: K root getField_root A' H0_def [symmetric])
  next
    case (Some c)
    note wfc = wf [OF Some]
    have gf: "getField (cellAt H0 a) k = rootAt ?B c"
      using Some by (simp add: root getField_root)
    show ?thesis
    proof (cases c)
      case (JArr js)
      let ?p = "?B + sum_list (map ncells js)"
      let ?G = "\<lambda>h. case cellAt h ?p of
                 Arr vs \<Rightarrow>
                   forEachE (\<lambda>h'' i. processSchema n h'' (elemAt (cellAt h'' ?p) i))
                     [0..<length vs] h
               | Obj kvs' \<Rightarrow> Some h"
      have m: "map_of A k = Some (JArr js)" using Some JArr by simp
      have "?G (pre @ snd (parsePropsAt b A) @ Obj ?K # post)
           = Some (pre @ snd (parsePropsAt b (AList.update k (JArr (map processTree js)) A)) @ Obj ?K # post)
         \<and> fst (parsePropsAt b (AList.update k (JArr (map processTree js)) A)) = fst (parsePropsAt b A)
         \<and> sum_list (map (\<lambda>kj. ncells (snd kj)) (AList.update k (JArr (map processTree js)) A))
             = sum_list (map (\<lambda>kj. ncells (snd kj)) A)"
      proof (rule stage' [OF b m])
        show "ncells (JArr (map processTree js)) = ncells (JArr js)"
          by (simp only: ncells.simps ncells_mapped)
        show "rootAt ?B (JArr (map processTree js)) = rootAt ?B (JArr js)"
          by (simp only: rootAt.simps ncells.simps ncells_mapped)
        fix pre' :: "cell list" and post' :: "cell list"
        assume l: "length pre' = ?B"
        have p: "?p = length pre' + sum_list (map ncells js)" using l by simp
        from wfc JArr have w: "wfj (JArr js)" "height (JArr js) \<le> n" by simp_all
        note aux = array_stage_aux [OF ih w p]
        show "?G (pre' @ snd (parseAt (length pre') (JArr js)) @ post')
                = Some (pre' @ snd (parseAt (length pre') (JArr (map processTree js))) @ post')"
          by (simp only: aux(1) cell.case parseAt_layout(2) [THEN conjunct1] aux(2))
      qed
      then show ?thesis unfolding H0_def [symmetric] HH using m
        by (simp add: K gf JArr A' rootAt_JArr del: rootAt.simps)
    next
      case (JObj ps)
      let ?p = "?B + sum_list (map (\<lambda>kj. ncells (snd kj)) ps)"
      have "\<exists>P Q. b + length P = ?B \<and> snd (parsePropsAt b A) = P @ snd (parseAt ?B c) @ Q"
        using props_child [OF Some refl refl, of b] by blast
      then obtain P Q where pq: "b + length P = ?B" "snd (parsePropsAt b A) = P @ snd (parseAt ?B c) @ Q"
        by blast
      have e: "H0 = (pre @ P) @ snd (parsePropsAt ?B ps) @ Obj (fst (parsePropsAt ?B ps)) # (Q @ Obj ?K # post)"
        by (simp add: H0_def pq(2) JObj parseAt_JObj_props)
      have "cellAt ((pre @ P) @ snd (parsePropsAt ?B ps) @ Obj (fst (parsePropsAt ?B ps)) # (Q @ Obj ?K # post)) ?p
              = Obj (fst (parsePropsAt ?B ps))"
        by (rule cellAt_mid') (use pq(1) b in simp)
      then have cell: "cellAt H0 ?p = Obj (fst (parsePropsAt ?B ps))"
        unfolding e [symmetric] .
      have "A' = A" using Some JObj by (simp add: A')
      then show ?thesis unfolding HH using Some
        by (simp add: K gf JObj rootAt_JObj cell H0_def [symmetric] del: rootAt.simps)
    qed (unfold HH, use Some in \<open>simp_all add: K gf A' H0_def [symmetric]\<close>)
  qed
qed

text \<open>A call of the pass on an object, statement by statement.\<close>

lemma processSchema_object:
  assumes c: "cellAt h a = Obj kvs"
    and h1: "h1 = (if getField (Obj kvs) ''type'' = VStr ''object''
                        \<and> \<not> hasField (Obj kvs) ''additionalProperties''
                     then h[a := Obj (AList.update ''additionalProperties'' (VBool False) kvs)]
                     else h)"
    and s1: "(case getField (cellAt h1 a) ''properties'' of
                   VRef p \<Rightarrow>
                     (case cellAt h1 p of
                        Obj props \<Rightarrow>
                          forEachE (\<lambda>h' key. processSchema n h' (getField (cellAt h' p) key))
                            (map fst (ownProps (Obj props))) h1
                      | Arr vs \<Rightarrow>
                          forEachE (\<lambda>h' i. processSchema n h' (elemAt (cellAt h' p) i))
                            [0..<length vs] h1)
                 | _ \<Rightarrow> Some h1) = Some h2"
    and s2: "(if truthy (getField (cellAt h2 a) ''items'')
              then processSchema n h2 (getField (cellAt h2 a) ''items'')
              else Some h2) = Some h3"
    and s3: "(case getField (cellAt h3 a) ''anyOf'' of
                VRef r \<Rightarrow>
                  (case cellAt h3 r of
                     Arr vs \<Rightarrow>
                       forEachE (\<lambda>h'' i. processSchema n h'' (elemAt (cellAt h'' r) i))
                         [0..<length vs] h3
                   | Obj kvs' \<Rightarrow> Some h3)
              | _ \<Rightarrow> Some h3) = Some h4"
    and s4: "(case getField (cellAt h4 a) ''allOf'' of
                VRef r \<Rightarrow>
                  (case cellAt h4 r of
                     Arr vs \<Rightarrow>
                       forEachE (\<lambda>h'' i. processSchema n h'' (elemAt (cellAt h'' r) i))
                         [0..<length vs] h4
                   | Obj kvs' \<Rightarrow> Some h4)
              | _ \<Rightarrow> Some h4) = Some h5"
    and s5: "(case getField (cellAt h5 a) ''oneOf'' of
                VRef r \<Rightarrow>
                  (case cellAt h5 r of
                     Arr vs \<Rightarrow>
                       forEachE (\<lambda>h'' i. processSchema n h'' (elemAt (cellAt h'' r) i))
                         [0..<length vs] h5
                   | Obj kvs' \<Rightarrow> Some h5)
              | _ \<Rightarrow> Some h5) = Some h6"
  shows "processSchema (Suc n) h (VRef a) = Some h6"
  by (simp only: processSchema.simps c cell.case Let_def h1 [symmetric] s1 s2 s3 s4 s5
        Option.bind.simps forEachE.simps option.case)

lemma closeObject_size:
  "sum_list (map (\<lambda>kj. ncells (snd kj)) (closeObject kjs)) = sum_list (map (\<lambda>kj. ncells (snd kj)) kjs)"
  by (simp add: closeObject_eq)

subsection \<open>The pass realises \<open>processTree\<close>\<close>

text \<open>
  On a parsed tree anywhere in the store, a call of the pass with more fuel than the tree
  is high returns, and leaves the parsed \<open>processTree\<close> of the tree in its place; the
  store before and behind it is as it was.
\<close>

lemma processSchema_refines:
  "wfj j \<Longrightarrow> height j < n \<Longrightarrow>
     processSchema n (pre @ snd (parseAt (length pre) j) @ post) (rootAt (length pre) j)
       = Some (pre @ snd (parseAt (length pre) (processTree j)) @ post)"
proof (induction n arbitrary: j pre post)
  case 0
  then show ?case by simp
next
  case (Suc n)
  note ih = Suc.IH
  show ?case
  proof (cases j)
    case (JArr js)
    have "cellAt (pre @ snd (parseListAt (length pre) js) @ Arr (fst (parseListAt (length pre) js)) # post)
            (length pre + sum_list (map ncells js)) = Arr (fst (parseListAt (length pre) js))"
      by (rule cellAt_mid') simp
    then show ?thesis by (simp add: JArr parseAt_JArr)
  next
    case (JObj kjs)
    let ?b = "length pre"
    let ?S = "\<lambda>A. sum_list (map (\<lambda>kj. ncells (snd kj)) A)"
    define a where "a = ?b + ?S kjs"
    define A0 where "A0 = closeObject kjs"
    define A1 where "A1 = rebind ''properties''
          (case map_of kjs ''properties'' of
             Some (JObj ps) \<Rightarrow> Some (JObj (map (\<lambda>kj. (fst kj, processTree (snd kj))) ps))
           | Some (JArr js) \<Rightarrow> Some (JArr (map processTree js))
           | _ \<Rightarrow> None) A0"
    define A2 where "A2 = rebind ''items''
          (case map_of kjs ''items'' of Some j \<Rightarrow> Some (processTree j) | None \<Rightarrow> None) A1"
    define A3 where "A3 = rebind ''anyOf''
          (case map_of kjs ''anyOf'' of
             Some (JArr js) \<Rightarrow> Some (JArr (map processTree js)) | _ \<Rightarrow> None) A2"
    define A4 where "A4 = rebind ''allOf''
          (case map_of kjs ''allOf'' of
             Some (JArr js) \<Rightarrow> Some (JArr (map processTree js)) | _ \<Rightarrow> None) A3"
    define A5 where "A5 = rebind ''oneOf''
          (case map_of kjs ''oneOf'' of
             Some (JArr js) \<Rightarrow> Some (JArr (map processTree js)) | _ \<Rightarrow> None) A4"
    define K where "K = fst (parsePropsAt ?b A0)"
    define H0 where "H0 = pre @ snd (parsePropsAt ?b kjs) @ Obj (fst (parsePropsAt ?b kjs)) # post"
    define H1 where "H1 = pre @ snd (parsePropsAt ?b A0) @ Obj K # post"
    define H2 where "H2 = pre @ snd (parsePropsAt ?b A1) @ Obj K # post"
    define H3 where "H3 = pre @ snd (parsePropsAt ?b A2) @ Obj K # post"
    define H4 where "H4 = pre @ snd (parsePropsAt ?b A3) @ Obj K # post"
    define H5 where "H5 = pre @ snd (parsePropsAt ?b A4) @ Obj K # post"
    define H6 where "H6 = pre @ snd (parsePropsAt ?b A5) @ Obj K # post"
    from Suc.prems JObj have w: "wfj (JObj kjs)" and hj: "height (JObj kjs) \<le> n" by simp_all
    have child: "wfj c \<and> height c < n" if "map_of kjs k = Some c" for k c
      using wfj_binding [OF w that] height_binding [OF that] hj by simp
    have m0: "map_of A0 k = map_of kjs k" if "k \<noteq> ''additionalProperties''" for k
      unfolding A0_def using that by (rule map_of_closeObject)
    have m1: "map_of A1 k = map_of kjs k" if "k \<noteq> ''additionalProperties''" "k \<noteq> ''properties''" for k
      unfolding A1_def using that by (simp add: map_of_rebind m0)
    have m2: "map_of A2 k = map_of kjs k"
      if "k \<noteq> ''additionalProperties''" "k \<noteq> ''properties''" "k \<noteq> ''items''" for k
      unfolding A2_def using that by (simp add: map_of_rebind m1)
    have m3: "map_of A3 k = map_of kjs k"
      if "k \<noteq> ''additionalProperties''" "k \<noteq> ''properties''" "k \<noteq> ''items''" "k \<noteq> ''anyOf''" for k
      unfolding A3_def using that by (simp add: map_of_rebind m2)
    have m4: "map_of A4 k = map_of kjs k"
      if "k \<noteq> ''additionalProperties''" "k \<noteq> ''properties''" "k \<noteq> ''items''" "k \<noteq> ''anyOf''"
         "k \<noteq> ''allOf''" for k
      unfolding A4_def using that by (simp add: map_of_rebind m3)
    have c0: "cellAt H0 a = Obj (fst (parsePropsAt ?b kjs))"
      unfolding H0_def a_def by (rule cell_root) simp
    have h1: "H1 = (if getField (Obj (fst (parsePropsAt ?b kjs))) ''type'' = VStr ''object''
                        \<and> \<not> hasField (Obj (fst (parsePropsAt ?b kjs))) ''additionalProperties''
                     then H0[a := Obj (AList.update ''additionalProperties'' (VBool False) (fst (parsePropsAt ?b kjs)))]
                     else H0)"
      unfolding H1_def H0_def K_def A0_def
      by (rule close_stage [symmetric]) (simp_all add: a_def)
    have a0: "a = ?b + ?S A0" by (simp add: a_def A0_def closeObject_size)
    have e1: "A1 = rebind ''properties''
          (case map_of A0 ''properties'' of
             Some (JObj ps) \<Rightarrow> Some (JObj (map (\<lambda>kj. (fst kj, processTree (snd kj))) ps))
           | Some (JArr js) \<Rightarrow> Some (JArr (map processTree js))
           | _ \<Rightarrow> None) A0"
      by (simp add: A1_def m0)
    have w1: "wfj c \<and> height c \<le> n" if "map_of A0 ''properties'' = Some c" for c
      using child [of "''properties''" c] that by (simp add: m0)
    note t1 = properties_stage [OF ih refl w1 a0 K_def H1_def e1]
    have s1: "(case getField (cellAt H1 a) ''properties'' of
                   VRef p \<Rightarrow>
                     (case cellAt H1 p of
                        Obj props \<Rightarrow>
                          forEachE (\<lambda>h' key. processSchema n h' (getField (cellAt h' p) key))
                            (map fst (ownProps (Obj props))) H1
                      | Arr vs \<Rightarrow>
                          forEachE (\<lambda>h' i. processSchema n h' (elemAt (cellAt h' p) i))
                            [0..<length vs] H1)
                 | _ \<Rightarrow> Some H1) = Some H2"
      unfolding H2_def by (rule t1 [THEN conjunct1])
    have K1: "K = fst (parsePropsAt ?b A1)" using t1 by simp
    have a1: "a = ?b + ?S A1" using t1 a0 by simp
    have e2: "A2 = rebind ''items''
          (case map_of A1 ''items'' of Some j \<Rightarrow> Some (processTree j) | None \<Rightarrow> None) A1"
      by (simp add: A2_def m1)
    have w2: "wfj c \<and> height c < n" if "map_of A1 ''items'' = Some c" for c
      using child [of "''items''" c] that by (simp add: m1)
    note t2 = items_stage [OF ih refl w2 a1 K1 H2_def e2]
    have s2: "(if truthy (getField (cellAt H2 a) ''items'')
              then processSchema n H2 (getField (cellAt H2 a) ''items'')
              else Some H2) = Some H3"
      unfolding H3_def by (rule t2 [THEN conjunct1])
    have K2: "K = fst (parsePropsAt ?b A2)" using t2 by simp
    have a2: "a = ?b + ?S A2" using t2 a1 by simp
    have e3: "A3 = rebind ''anyOf''
          (case map_of A2 ''anyOf'' of
             Some (JArr js) \<Rightarrow> Some (JArr (map processTree js)) | _ \<Rightarrow> None) A2"
      by (simp add: A3_def m2)
    have w3: "wfj c \<and> height c \<le> n" if "map_of A2 ''anyOf'' = Some c" for c
      using child [of "''anyOf''" c] that by (simp add: m2)
    note t3 = combinator_stage [OF ih refl w3 a2 K2 H3_def e3]
    have s3: "(case getField (cellAt H3 a) ''anyOf'' of
                VRef r \<Rightarrow>
                  (case cellAt H3 r of
                     Arr vs \<Rightarrow>
                       forEachE (\<lambda>h'' i. processSchema n h'' (elemAt (cellAt h'' r) i))
                         [0..<length vs] H3
                   | Obj kvs' \<Rightarrow> Some H3)
              | _ \<Rightarrow> Some H3) = Some H4"
      unfolding H4_def by (rule t3 [THEN conjunct1])
    have K3: "K = fst (parsePropsAt ?b A3)" using t3 by simp
    have a3: "a = ?b + ?S A3" using t3 a2 by simp
    have e4: "A4 = rebind ''allOf''
          (case map_of A3 ''allOf'' of
             Some (JArr js) \<Rightarrow> Some (JArr (map processTree js)) | _ \<Rightarrow> None) A3"
      by (simp add: A4_def m3)
    have w4: "wfj c \<and> height c \<le> n" if "map_of A3 ''allOf'' = Some c" for c
      using child [of "''allOf''" c] that by (simp add: m3)
    note t4 = combinator_stage [OF ih refl w4 a3 K3 H4_def e4]
    have s4: "(case getField (cellAt H4 a) ''allOf'' of
                VRef r \<Rightarrow>
                  (case cellAt H4 r of
                     Arr vs \<Rightarrow>
                       forEachE (\<lambda>h'' i. processSchema n h'' (elemAt (cellAt h'' r) i))
                         [0..<length vs] H4
                   | Obj kvs' \<Rightarrow> Some H4)
              | _ \<Rightarrow> Some H4) = Some H5"
      unfolding H5_def by (rule t4 [THEN conjunct1])
    have K4: "K = fst (parsePropsAt ?b A4)" using t4 by simp
    have a4: "a = ?b + ?S A4" using t4 a3 by simp
    have e5: "A5 = rebind ''oneOf''
          (case map_of A4 ''oneOf'' of
             Some (JArr js) \<Rightarrow> Some (JArr (map processTree js)) | _ \<Rightarrow> None) A4"
      by (simp add: A5_def m4)
    have w5: "wfj c \<and> height c \<le> n" if "map_of A4 ''oneOf'' = Some c" for c
      using child [of "''oneOf''" c] that by (simp add: m4)
    note t5 = combinator_stage [OF ih refl w5 a4 K4 H5_def e5]
    have s5: "(case getField (cellAt H5 a) ''oneOf'' of
                VRef r \<Rightarrow>
                  (case cellAt H5 r of
                     Arr vs \<Rightarrow>
                       forEachE (\<lambda>h'' i. processSchema n h'' (elemAt (cellAt h'' r) i))
                         [0..<length vs] H5
                   | Obj kvs' \<Rightarrow> Some H5)
              | _ \<Rightarrow> Some H5) = Some H6"
      unfolding H6_def by (rule t5 [THEN conjunct1])
    have K5: "K = fst (parsePropsAt ?b A5)" using t5 by simp
    have run: "processSchema (Suc n) H0 (VRef a) = Some H6"
      by (rule processSchema_object [OF c0 h1 s1 s2 s3 s4 s5])
    have tree: "processTree (JObj kjs) = JObj A5"
      unfolding processTree_JObj A5_def A4_def A3_def A2_def A1_def A0_def ..
    have "pre @ snd (parseAt ?b (JObj kjs)) @ post = H0"
      by (simp add: parseAt_JObj_props H0_def)
    moreover have "rootAt ?b (JObj kjs) = VRef a" by (simp add: a_def)
    moreover have "pre @ snd (parseAt ?b (processTree (JObj kjs))) @ post = H6"
      unfolding tree by (simp add: parseAt_JObj_props H6_def K5 [symmetric])
    ultimately show ?thesis unfolding JObj using run by (simp only:)
  qed simp_all
qed

subsection \<open>The tree a value denotes\<close>

lemma sequenceE_Inr: "sequenceE xs = Inr ys \<Longrightarrow> xs = map Inr ys"
  by (induction xs arbitrary: ys) (auto split: sum.splits)

lemma keepDefined_keys: "set (keepDefined kvs) \<subseteq> {(k, j). (k, Some j) \<in> set kvs}"
  by (induction kvs rule: keepDefined.induct) auto

lemma keepDefined_distinct: "distinct (map fst kvs) \<Longrightarrow> distinct (map fst (keepDefined kvs))"
proof (induction kvs rule: keepDefined.induct)
  case (3 k j kvs)
  have "k \<notin> fst ` set (keepDefined kvs)"
  proof
    assume "k \<in> fst ` set (keepDefined kvs)"
    then obtain j' where "(k, j') \<in> set (keepDefined kvs)" by auto
    with keepDefined_keys [of kvs] have "(k, Some j') \<in> set kvs" by auto
    then have "k \<in> fst ` set kvs" by force
    with 3(2) show False by simp
  qed
  with 3 show ?case by simp
qed simp_all

lemma wfj_stringify: "JSON_stringify h stack v = Inr (Some j) \<Longrightarrow> wfj j"
proof (induction h stack v arbitrary: j rule: JSON_stringify.induct)
  case (7 h stack a)
  from 7(3) have ok: "\<not> (a \<in> set stack \<or> length h \<le> a)" by (auto split: if_splits)
  show ?case
  proof (cases "cellAt h a")
    case (Arr vs)
    with 7(3) ok obtain js where s: "sequenceE (map (JSON_stringify h (a # stack)) vs) = Inr js"
      and j: "j = JArr (map orNull js)"
      by (auto split: sum.splits)
    from sequenceE_Inr [OF s] have e: "map (JSON_stringify h (a # stack)) vs = map Inr js" .
    have "wfj (orNull x)" if "x \<in> set js" for x
    proof (cases x)
      case None
      then show ?thesis by (simp add: orNull_def)
    next
      case (Some j')
      from that have "Inr x \<in> set (map (JSON_stringify h (a # stack)) vs)" unfolding e by simp
      then obtain v' where "v' \<in> set vs" "JSON_stringify h (a # stack) v' = Inr (Some j')"
        using Some by auto
      then have "wfj j'" using 7(2) [OF ok Arr] by blast
      then show ?thesis by (simp add: Some orNull_def)
    qed
    then show ?thesis by (simp add: j)
  next
    case (Obj kvs)
    let ?al = "AList.clearjunk kvs"
    from 7(3) ok Obj obtain js where s: "sequenceE (map (\<lambda>kv. JSON_stringify h (a # stack) (snd kv)) ?al) = Inr js"
      and j: "j = JObj (keepDefined (zip (map fst ?al) js))"
      by (auto split: sum.splits)
    from sequenceE_Inr [OF s] have e: "map (\<lambda>kv. JSON_stringify h (a # stack) (snd kv)) ?al = map Inr js" .
    then have len: "length js = length ?al" by (metis length_map)
    have d: "distinct (map fst (keepDefined (zip (map fst ?al) js)))"
      by (rule keepDefined_distinct) (simp add: len)
    have "wfj (snd kj)" if "kj \<in> set (keepDefined (zip (map fst ?al) js))" for kj
    proof -
      from that keepDefined_keys [of "zip (map fst ?al) js"]
      have "(fst kj, Some (snd kj)) \<in> set (zip (map fst ?al) js)" by (cases kj) auto
      then obtain i where i: "i < length js" "js ! i = Some (snd kj)"
        by (auto simp: in_set_conv_nth)
      have "map (\<lambda>kv. JSON_stringify h (a # stack) (snd kv)) ?al ! i = map Inr js ! i"
        using e by simp
      then have "JSON_stringify h (a # stack) (snd (?al ! i)) = Inr (Some (snd kj))"
        using i len by simp
      moreover have "?al ! i \<in> set ?al" using i len by simp
      ultimately show ?thesis using 7(1) [OF ok Obj] by blast
    qed
    with d show ?thesis by (simp add: j)
  qed
qed (auto)

lemma normalize_result:
  assumes "JSON_stringify h [] schema = Inr (Some j)"
  shows "normalizeSchemaForStrictMode h schema = Inr (JSON_parse h (processTree j))"
proof -
  from assms have "wfj j" by (rule wfj_stringify)
  then have "processSchema (Suc (height j)) (h @ snd (parseAt (length h) j) @ []) (rootAt (length h) j)
               = Some (h @ snd (parseAt (length h) (processTree j)) @ [])"
    by (rule processSchema_refines) simp
  then show ?thesis
    using assms
    by (simp add: normalizeSchemaForStrictMode_def JSON_parse_def case_prod_unfold parseAt_layout(1))
qed

subsection \<open>The nodes of the processed tree\<close>

lemma map_of_processed:
  "map_of (map (\<lambda>kj. (fst kj, f (snd kj))) ps) k = map_option f (map_of ps k)"
  by (induction ps) auto

lemma child_processTree: "child (processTree j) s = map_option processTree (child j s)"
proof (cases j)
  case (JObj kjs)
  show ?thesis
  proof (cases s)
    case (Property k)
    show ?thesis
      unfolding JObj Property processTree_JObj
      by (auto simp: map_of_rebind map_of_closeObject map_of_processed
               split: option.splits json.splits simp del: processTree.simps)
  next
    case Items
    show ?thesis
      unfolding JObj Items processTree_JObj
      by (auto simp: map_of_rebind map_of_closeObject
               split: option.splits json.splits simp del: processTree.simps)
  next
    case (AnyOf i)
    show ?thesis
      unfolding JObj AnyOf processTree_JObj
      by (auto simp: map_of_rebind map_of_closeObject
               split: option.splits json.splits simp del: processTree.simps)
  next
    case (AllOf i)
    show ?thesis
      unfolding JObj AllOf processTree_JObj
      by (auto simp: map_of_rebind map_of_closeObject
               split: option.splits json.splits simp del: processTree.simps)
  next
    case (OneOf i)
    show ?thesis
      unfolding JObj OneOf processTree_JObj
      by (auto simp: map_of_rebind map_of_closeObject
               split: option.splits json.splits simp del: processTree.simps)
  qed
qed simp_all

lemma subSchema_processTree: "subSchema (processTree j) p = map_option processTree (subSchema j p)"
proof (induction p arbitrary: j)
  case Nil
  show ?case by simp
next
  case (Cons s p)
  show ?case by (cases "child j s") (simp_all add: child_processTree Cons.IH)
qed

lemma rebind_keys:
  assumes "map_of al k \<noteq> None \<or> jo = None"
  shows "map fst (rebind k jo al) = map fst al"
proof (cases jo)
  case None
  then show ?thesis by simp
next
  case (Some j)
  with assms have "map_of al k \<noteq> None" by simp
  then show ?thesis by (rule keys_rebind)
qed

lemma processTree_node:
  "\<exists>kjs'. processTree (JObj kjs) = JObj kjs'
     \<and> map_of kjs' ''additionalProperties'' =
         (if ''additionalProperties'' \<in> fst ` set kjs then map_of kjs ''additionalProperties''
          else if map_of kjs ''type'' = Some (JStr ''object'') then Some (JBool False) else None)
     \<and> (\<forall>k. k \<notin> {''additionalProperties'', ''properties'', ''items'', ''anyOf'', ''allOf'', ''oneOf''}
            \<longrightarrow> map_of kjs' k = map_of kjs k)
     \<and> map fst kjs' = map fst (closeObject kjs)"
proof -
  let ?p1 = "case map_of kjs ''properties'' of
               Some (JObj ps) \<Rightarrow> Some (JObj (map (\<lambda>kj. (fst kj, processTree (snd kj))) ps))
             | Some (JArr js) \<Rightarrow> Some (JArr (map processTree js))
             | _ \<Rightarrow> None"
  let ?p2 = "case map_of kjs ''items'' of Some j \<Rightarrow> Some (processTree j) | None \<Rightarrow> None"
  let ?p3 = "case map_of kjs ''anyOf'' of
               Some (JArr js) \<Rightarrow> Some (JArr (map processTree js)) | _ \<Rightarrow> None"
  let ?p4 = "case map_of kjs ''allOf'' of
               Some (JArr js) \<Rightarrow> Some (JArr (map processTree js)) | _ \<Rightarrow> None"
  let ?p5 = "case map_of kjs ''oneOf'' of
               Some (JArr js) \<Rightarrow> Some (JArr (map processTree js)) | _ \<Rightarrow> None"
  let ?a0 = "closeObject kjs"
  let ?a1 = "rebind ''properties'' ?p1 ?a0"
  let ?a2 = "rebind ''items'' ?p2 ?a1"
  let ?a3 = "rebind ''anyOf'' ?p3 ?a2"
  let ?a4 = "rebind ''allOf'' ?p4 ?a3"
  let ?a5 = "rebind ''oneOf'' ?p5 ?a4"
  have t: "processTree (JObj kjs) = JObj ?a5" by (rule processTree_JObj)
  have ap0: "map_of ?a0 ''additionalProperties'' =
         (if ''additionalProperties'' \<in> fst ` set kjs then map_of kjs ''additionalProperties''
          else if map_of kjs ''type'' = Some (JStr ''object'') then Some (JBool False) else None)"
    by (auto simp: closeObject_def update_conv' map_of_eq_None_iff)
  have ap: "map_of ?a5 ''additionalProperties'' = map_of ?a0 ''additionalProperties''"
    by (simp add: map_of_rebind)
  have oth: "map_of ?a5 k = map_of kjs k"
    if "k \<notin> {''additionalProperties'', ''properties'', ''items'', ''anyOf'', ''allOf'', ''oneOf''}" for k
    using that by (simp add: map_of_rebind map_of_closeObject)
  have k1: "map fst ?a1 = map fst ?a0"
    by (rule rebind_keys) (auto simp: map_of_closeObject split: option.splits json.splits)
  have k2: "map fst ?a2 = map fst ?a1"
    by (rule rebind_keys) (auto simp: map_of_rebind map_of_closeObject split: option.splits json.splits)
  have k3: "map fst ?a3 = map fst ?a2"
    by (rule rebind_keys) (auto simp: map_of_rebind map_of_closeObject split: option.splits json.splits)
  have k4: "map fst ?a4 = map fst ?a3"
    by (rule rebind_keys) (auto simp: map_of_rebind map_of_closeObject split: option.splits json.splits)
  have k5: "map fst ?a5 = map fst ?a4"
    by (rule rebind_keys) (auto simp: map_of_rebind map_of_closeObject split: option.splits json.splits)
  have keys: "map fst ?a5 = map fst ?a0" using k1 k2 k3 k4 k5 by simp
  have main: "processTree (JObj kjs) = JObj ?a5
     \<and> map_of ?a5 ''additionalProperties'' =
         (if ''additionalProperties'' \<in> fst ` set kjs then map_of kjs ''additionalProperties''
          else if map_of kjs ''type'' = Some (JStr ''object'') then Some (JBool False) else None)
     \<and> (\<forall>k. k \<notin> {''additionalProperties'', ''properties'', ''items'', ''anyOf'', ''allOf'', ''oneOf''}
            \<longrightarrow> map_of ?a5 k = map_of kjs k)
     \<and> map fst ?a5 = map fst (closeObject kjs)"
  proof (intro conjI allI impI)
    show "processTree (JObj kjs) = JObj ?a5" by (rule t)
    show "map_of ?a5 ''additionalProperties'' =
         (if ''additionalProperties'' \<in> fst ` set kjs then map_of kjs ''additionalProperties''
          else if map_of kjs ''type'' = Some (JStr ''object'') then Some (JBool False) else None)"
      by (simp only: ap ap0)
    show "map fst ?a5 = map fst (closeObject kjs)" by (rule keys)
  qed (rule oth)
  show ?thesis by (rule exI [of _ ?a5]) (rule main)
qed

subsection \<open>The copy is deep, and the store before it is left alone\<close>

lemma rootAt_bounds: "rootAt b t = VRef a \<Longrightarrow> b \<le> a \<and> a < b + ncells t"
  by (cases t) auto

lemma parse_refs:
  "c \<in> set (snd (parseAt b t)) \<Longrightarrow> a \<in> set (refs c) \<Longrightarrow> b \<le> a \<and> a < b + ncells t"
  "(c \<in> set (snd (parseListAt b ts)) \<longrightarrow> a \<in> set (refs c) \<longrightarrow> b \<le> a \<and> a < b + sum_list (map ncells ts))
   \<and> (VRef a \<in> set (fst (parseListAt b ts)) \<longrightarrow> b \<le> a \<and> a < b + sum_list (map ncells ts))"
  "(c \<in> set (snd (parsePropsAt b kts)) \<longrightarrow> a \<in> set (refs c) \<longrightarrow>
      b \<le> a \<and> a < b + sum_list (map (\<lambda>kj. ncells (snd kj)) kts))
   \<and> (VRef a \<in> snd ` set (fst (parsePropsAt b kts)) \<longrightarrow>
      b \<le> a \<and> a < b + sum_list (map (\<lambda>kj. ncells (snd kj)) kts))"
proof (induction b t and b ts and b kts arbitrary: c a and c a and c a
       rule: parseAt_parseListAt_parsePropsAt.induct)
  case (5 n js)
  from 5(2) have "c \<in> set (snd (parseListAt n js)) \<or> c = Arr (fst (parseListAt n js))"
    by (auto simp: parseAt_JArr)
  then show ?case
  proof
    assume "c \<in> set (snd (parseListAt n js))"
    with 5(1) [of c a] 5(3) show ?thesis by simp
  next
    assume c: "c = Arr (fst (parseListAt n js))"
    with 5(3) have "VRef a \<in> set (fst (parseListAt n js))" by (auto split: val.splits)
    with 5(1) [of c a] show ?thesis by simp
  qed
next
  case (6 n kjs)
  from 6(2) have "c \<in> set (snd (parsePropsAt n kjs)) \<or> c = Obj (fst (parsePropsAt n kjs))"
    by (auto simp: parseAt_JObj_props)
  then show ?case
  proof
    assume "c \<in> set (snd (parsePropsAt n kjs))"
    with 6(1) [of c a] 6(3) show ?thesis by simp
  next
    assume c: "c = Obj (fst (parsePropsAt n kjs))"
    with 6(3) have "VRef a \<in> snd ` set (fst (parsePropsAt n kjs))" by (force split: val.splits)
    with 6(1) [of c a] show ?thesis by simp
  qed
next
  case (8 n j js)
  have l: "length (snd (parseAt n j)) = ncells j" by simp
  show ?case
    using 8(1) [of c a] 8(2) [OF prod.collapse, of c a] rootAt_bounds [of n j a]
    by (auto simp: parseListAt_Cons l)
next
  case (10 n kj kjs)
  have l: "length (snd (parseAt n (snd kj))) = ncells (snd kj)" by simp
  show ?case
    using 10(1) [of c a] 10(2) [OF prod.collapse, of c a] rootAt_bounds [of n "snd kj" a]
    by (auto simp: parsePropsAt_Cons l)
qed simp_all

lemma sequenceE_all_Inr: "sequenceE xs = Inr ys \<Longrightarrow> x \<in> set xs \<Longrightarrow> \<exists>y. x = Inr y"
  by (drule sequenceE_Inr) auto

lemma stringify_append:
  "JSON_stringify h stack v = Inr x \<Longrightarrow> JSON_stringify (h @ cs) stack v = Inr x"
proof (induction h stack v arbitrary: x rule: JSON_stringify.induct)
  case (7 h stack a)
  from 7(3) have ok: "\<not> (a \<in> set stack \<or> length h \<le> a)" by (auto split: if_splits)
  then have cell: "cellAt (h @ cs) a = cellAt h a" by (simp add: cellAt_append_old)
  show ?case
  proof (cases "cellAt h a")
    case (Arr vs)
    with 7(3) ok obtain js where s: "sequenceE (map (JSON_stringify h (a # stack)) vs) = Inr js"
      by (auto split: sum.splits)
    have me: "map (JSON_stringify (h @ cs) (a # stack)) vs = map (JSON_stringify h (a # stack)) vs"
    proof (rule map_cong [OF refl])
      fix v assume v: "v \<in> set vs"
      then have "JSON_stringify h (a # stack) v \<in> set (map (JSON_stringify h (a # stack)) vs)" by simp
      from sequenceE_all_Inr [OF s this] obtain y where "JSON_stringify h (a # stack) v = Inr y" ..
      with 7(2) [OF ok Arr v] show "JSON_stringify (h @ cs) (a # stack) v = JSON_stringify h (a # stack) v"
        by simp
    qed
    from 7(3) ok Arr show ?thesis by (simp add: cell me)
  next
    case (Obj kvs)
    let ?al = "AList.clearjunk kvs"
    from 7(3) ok Obj obtain js where s: "sequenceE (map (\<lambda>kv. JSON_stringify h (a # stack) (snd kv)) ?al) = Inr js"
      by (auto split: sum.splits)
    have me: "map (\<lambda>kv. JSON_stringify (h @ cs) (a # stack) (snd kv)) ?al
            = map (\<lambda>kv. JSON_stringify h (a # stack) (snd kv)) ?al"
    proof (rule map_cong [OF refl])
      fix kv assume kv: "kv \<in> set ?al"
      then have "JSON_stringify h (a # stack) (snd kv) \<in> set (map (\<lambda>kv. JSON_stringify h (a # stack) (snd kv)) ?al)"
        by simp
      from sequenceE_all_Inr [OF s this] obtain y where "JSON_stringify h (a # stack) (snd kv) = Inr y" ..
      with 7(1) [OF ok Obj kv]
      show "JSON_stringify (h @ cs) (a # stack) (snd kv) = JSON_stringify h (a # stack) (snd kv)"
        by simp
    qed
    from 7(3) ok Obj show ?thesis by (simp add: cell me)
  qed
qed simp_all

end
